theory Spec2Isabelle
  imports Main
begin

section \<open>Strings and the regular-expression replacements of the renderer\<close>

text \<open>
  JavaScript strings are sequences of UTF-16 code units. They are modelled as
  \<^typ>\<open>string\<close>; a character stands for the code unit of the same number, so the model
  covers the texts whose code units are below 256. Among those the line terminators
  (the characters the regular-expression dot does not match, and after which \<open>^\<close>
  matches under the \<open>m\<close> flag) are line feed and carriage return, and the white space
  removed by \<open>trim\<close> is tab, line feed, vertical tab, form feed, carriage return,
  space and no-break space.
\<close>

definition isLineTerminator :: "char \<Rightarrow> bool" where
  "isLineTerminator c = (c = CHR 0x0A \<or> c = CHR 0x0D)"

definition isWhiteSpace :: "char \<Rightarrow> bool" where
  "isWhiteSpace c = (c = CHR 0x09 \<or> c = CHR 0x0A \<or> c = CHR 0x0B \<or> c = CHR 0x0C
     \<or> c = CHR 0x0D \<or> c = CHR 0x20 \<or> c = CHR 0xA0)"

definition startsWith :: "string \<Rightarrow> string \<Rightarrow> bool" where
  "startsWith s t = (take (length t) s = t)"

fun includesJS :: "string \<Rightarrow> string \<Rightarrow> bool" where
  "includesJS [] t = (t = [])"
| "includesJS (c # cs) t = (startsWith (c # cs) t \<or> includesJS cs t)"

definition trim :: "string \<Rightarrow> string" where
  "trim s = rev (dropWhile isWhiteSpace (rev (dropWhile isWhiteSpace s)))"

fun split :: "char \<Rightarrow> string \<Rightarrow> string list" where
  "split sep [] = [[]]"
| "split sep (c # cs) =
     (if c = sep then [] # split sep cs
      else (case split sep cs of [] \<Rightarrow> [[c]] | x # xs \<Rightarrow> (c # x) # xs))"

fun joinWith :: "string \<Rightarrow> string list \<Rightarrow> string" where
  "joinWith sep [] = []"
| "joinWith sep [x] = x"
| "joinWith sep (x # y # ys) = x @ sep @ joinWith sep (y # ys)"

text \<open>
  \<open>s.replace(re, r)\<close> with a global regular expression scans \<open>s\<close> from the left. A
  matcher stands for the regular expression: given the character before the current
  position (none at the start of the text) and the rest of the text, it returns the
  replacement text and the length of the match that starts here, or nothing. After a
  match the scan goes on behind it; an empty match is replaced and the scan moves one
  character on, copying that character.
\<close>

type_synonym matcher = "char option \<Rightarrow> string \<Rightarrow> (string \<times> nat) option"

function replaceAll :: "matcher \<Rightarrow> char option \<Rightarrow> string \<Rightarrow> string" where
  "replaceAll m prev [] = (case m prev [] of Some (rep, n) \<Rightarrow> rep | None \<Rightarrow> [])"
| "replaceAll m prev (c # cs) =
     (case m prev (c # cs) of
        None \<Rightarrow> c # replaceAll m (Some c) cs
      | Some (rep, n) \<Rightarrow>
          (if n = 0 then rep @ c # replaceAll m (Some c) cs
           else rep @ replaceAll m (Some (last (take n (c # cs)))) (drop n (c # cs))))"
  by pat_completeness auto
termination
  by (relation "measure (\<lambda>(m, prev, s). length s)") auto

text \<open>\<open>/[&<>"']/g\<close>, replaced through the entity table of \<open>escapeHtml\<close>.\<close>

definition reSpecial :: matcher where
  "reSpecial prev s =
     (case s of [] \<Rightarrow> None
      | c # cs \<Rightarrow>
          (if c = CHR ''&'' then Some (''&amp;'', 1)
           else if c = CHR ''<'' then Some (''&lt;'', 1)
           else if c = CHR ''>'' then Some (''&gt;'', 1)
           else if c = CHR 0x22 then Some (''&quot;'', 1)
           else if c = CHR 0x27 then Some (''&#39;'', 1)
           else None))"

definition escapeHtml :: "string \<Rightarrow> string" where
  "escapeHtml s = replaceAll reSpecial None s"

text \<open>
  \<open>/^### (.*$)/gim\<close> and its two shorter siblings: at the start of a line, the marker
  and a space, then the rest of the line as group 1. The match is replaced by the
  group wrapped in the tag.
\<close>

definition reHeader :: "string \<Rightarrow> string \<Rightarrow> matcher" where
  "reHeader marker tag prev s =
     (if (case prev of None \<Rightarrow> True | Some p \<Rightarrow> isLineTerminator p) \<and> startsWith s marker
      then (let cap = takeWhile (\<lambda>c. \<not> isLineTerminator c) (drop (length marker) s)
            in Some (''<'' @ tag @ ''>'' @ cap @ ''</'' @ tag @ ''>'',
                     length marker + length cap))
      else None)"

text \<open>
  \<open>(.*?)\<close> followed by a closing delimiter: the shortest run of characters other than
  line terminators after which the delimiter stands.
\<close>

fun lazyUntil :: "string \<Rightarrow> string \<Rightarrow> string option" where
  "lazyUntil d [] = (if d = [] then Some [] else None)"
| "lazyUntil d (c # cs) =
     (if startsWith (c # cs) d then Some []
      else if isLineTerminator c then None
      else map_option (\<lambda>cap. c # cap) (lazyUntil d cs))"

text \<open>\<open>/\*\*(.*?)\*\*/g\<close> and \<open>/\*(.*?)\*/g\<close>, with the delimiter as a parameter.\<close>

definition reDelimited :: "string \<Rightarrow> string \<Rightarrow> matcher" where
  "reDelimited d tag prev s =
     (if startsWith s d
      then (case lazyUntil d (drop (length d) s) of
              None \<Rightarrow> None
            | Some cap \<Rightarrow>
                Some (''<'' @ tag @ ''>'' @ cap @ ''</'' @ tag @ ''>'',
                      length d + length cap + length d))
      else None)"

text \<open>\<open>/`([^`]+)`/g\<close>: a backquote, one or more other characters, a backquote.\<close>

definition reInlineCode :: matcher where
  "reInlineCode prev s =
     (case s of [] \<Rightarrow> None
      | c # cs \<Rightarrow>
          (let cap = takeWhile (\<lambda>x. x \<noteq> CHR 0x60) cs
           in if c = CHR 0x60 \<and> cap \<noteq> [] \<and> startsWith (drop (length cap) cs) [CHR 0x60]
              then Some (''<code>'' @ cap @ ''</code>'', length cap + 2)
              else None))"

text \<open>\<open>/\n\n/g\<close>.\<close>

definition reBlankLine :: matcher where
  "reBlankLine prev s =
     (if startsWith s [CHR 0x0A, CHR 0x0A] then Some (''</p><p>'', 2) else None)"

text \<open>The chain of replacements of \<open>renderMarkdown\<close>, in the order of the source.\<close>

definition markdownReplacements :: "string \<Rightarrow> string" where
  "markdownReplacements text =
     replaceAll reBlankLine None
      (replaceAll reInlineCode None
        (replaceAll (reDelimited ''*'' ''em'') None
          (replaceAll (reDelimited ''**'' ''strong'') None
            (replaceAll (reHeader ''# '' ''h1'') None
              (replaceAll (reHeader ''## '' ''h2'') None
                (replaceAll (reHeader ''### '' ''h3'') None text))))))"

section \<open>Parsed notebooks\<close>

text \<open>
  A notebook is the value \<open>JSON.parse\<close> returns. An object is the list of its own
  properties; the first binding of a key is its value. A number is seen by the renderer
  through two operations only, its conversion to a string and its truth value, so it is
  modelled by the text the conversion gives: zero is the number whose text is \<open>0\<close>.
  A property that is absent reads as \<open>undefined\<close>, modelled as \<^term>\<open>None\<close>.
\<close>

datatype json =
    JNull
  | JBool bool
  | JNum string
  | JStr string
  | JArr "json list"
  | JObj "(string \<times> json) list"

text \<open>
  How a run ends without a result. \<open>TypeError\<close> is the exception of that name.
  \<open>OutsideTree\<close> is no exception of the program: it marks a run of the tree builder or
  of the navigator that takes an element of an array or a member which an object or an
  array inherits for a folder, and so leaves the tree; what the program does from there
  depends on the built-in objects of the browser and is not modelled.
\<close>

datatype error = TypeError | OutsideTree

definition bindE :: "error + 'a \<Rightarrow> ('a \<Rightarrow> error + 'b) \<Rightarrow> error + 'b" where
  "bindE m f = (case m of Inl e \<Rightarrow> Inl e | Inr x \<Rightarrow> f x)"

definition truthy :: "json option \<Rightarrow> bool" where
  "truthy v =
     (case v of
        None \<Rightarrow> False
      | Some JNull \<Rightarrow> False
      | Some (JBool b) \<Rightarrow> b
      | Some (JNum r) \<Rightarrow> r \<noteq> ''0''
      | Some (JStr s) \<Rightarrow> s \<noteq> []
      | Some (JArr xs) \<Rightarrow> True
      | Some (JObj kvs) \<Rightarrow> True)"

text \<open>
  \<open>v.k\<close> for the property names the renderer reads (\<open>cells\<close>, \<open>cell_type\<close>,
  \<open>source\<close>, \<open>outputs\<close>, \<open>data\<close>, \<open>output_type\<close>, \<open>text\<close> and the four payload
  keys): none of them is a built-in member of a string, number, boolean or array, so
  on those values the read gives \<open>undefined\<close>; on \<open>null\<close> it raises.
\<close>

fun getProp :: "json \<Rightarrow> string \<Rightarrow> error + json option" where
  "getProp JNull k = Inl TypeError"
| "getProp (JObj kvs) k = Inr (map_of kvs k)"
| "getProp (JBool b) k = Inr None"
| "getProp (JNum r) k = Inr None"
| "getProp (JStr s) k = Inr None"
| "getProp (JArr xs) k = Inr None"

text \<open>
  Conversion to a string, as a template literal and \<open>Array.prototype.join\<close> perform it.
  An array converts to its elements joined by commas. An object converts to
  \<open>[object Object]\<close>, unless it has a property \<open>toString\<close> of its own: that property
  is no function, and the conversion raises. \<open>join\<close> writes \<open>null\<close> elements as the
  empty text.
\<close>

fun toStringJS :: "json \<Rightarrow> error + string"
  and joinJS :: "string \<Rightarrow> json list \<Rightarrow> error + string" where
  "toStringJS JNull = Inr ''null''"
| "toStringJS (JBool b) = Inr (if b then ''true'' else ''false'')"
| "toStringJS (JNum r) = Inr r"
| "toStringJS (JStr s) = Inr s"
| "toStringJS (JArr xs) = joinJS '','' xs"
| "toStringJS (JObj kvs) =
     (if map_of kvs ''toString'' = None then Inr ''[object Object]'' else Inl TypeError)"
| "joinJS sep [] = Inr []"
| "joinJS sep (x # xs) =
     (case (if x = JNull then Inr [] else toStringJS x) of
        Inl e \<Rightarrow> Inl e
      | Inr s \<Rightarrow>
          (if xs = [] then Inr s
           else (case joinJS sep xs of Inl e \<Rightarrow> Inl e | Inr r \<Rightarrow> Inr (s @ sep @ r))))"

text \<open>\<open>${v}\<close> inside a template literal.\<close>

definition templateStr :: "json option \<Rightarrow> error + string" where
  "templateStr v = (case v of None \<Rightarrow> Inr ''undefined'' | Some j \<Rightarrow> toStringJS j)"

text \<open>\<open>Array.isArray(v) ? v.join('') : v\<close>.\<close>

definition joinIfArray :: "json option \<Rightarrow> error + json option" where
  "joinIfArray v =
     (case v of
        Some (JArr xs) \<Rightarrow> bindE (joinJS [] xs) (\<lambda>s. Inr (Some (JStr s)))
      | _ \<Rightarrow> Inr v)"

text \<open>
  A method call on a value that is no string (\<open>replace\<close>, \<open>trim\<close>, \<open>includes\<close>) raises:
  no other parsed value has a function under that name.
\<close>

definition asString :: "json option \<Rightarrow> error + string" where
  "asString v = (case v of Some (JStr s) \<Rightarrow> Inr s | _ \<Rightarrow> Inl TypeError)"

definition renderMarkdown :: "json option \<Rightarrow> error + string" where
  "renderMarkdown text =
     (if \<not> truthy text then Inr []
      else bindE (asString text) (\<lambda>s. Inr (''<p>'' @ markdownReplacements s @ ''</p>'')))"

definition NOTEBOOK_PREVIEW_CELLS :: nat where
  "NOTEBOOK_PREVIEW_CELLS = 3"

definition PYTHON_PREVIEW_LINES :: nat where
  "PYTHON_PREVIEW_LINES = 8"

text \<open>\<open>v || ''\<close>.\<close>

definition orEmpty :: "json option \<Rightarrow> json option" where
  "orEmpty v = (if truthy v then v else Some (JStr []))"

subsection \<open>Preview rendering\<close>

text \<open>
  One pass of the loop body of \<open>renderNotebookPreview\<close> for a cell \<open>c\<close>: the markup
  appended, or nothing when the cell is neither a markdown nor a code cell.
\<close>

definition previewCell :: "json \<Rightarrow> error + string option" where
  "previewCell c =
     bindE (getProp c ''cell_type'') (\<lambda>t.
       if t = Some (JStr ''markdown'') then
         bindE (getProp c ''source'') (\<lambda>src.
         bindE (joinIfArray src) (\<lambda>text.
         bindE (renderMarkdown text) (\<lambda>h. Inr (Some h))))
       else if t = Some (JStr ''code'') then
         bindE (getProp c ''source'') (\<lambda>src.
         bindE (joinIfArray src) (\<lambda>text.
         bindE (asString (orEmpty text)) (\<lambda>s.
           Inr (Some (''<pre><code class=\"language-python\">'' @ escapeHtml (trim s)
                       @ ''</code></pre>'')))))
       else Inr None)"

fun previewLoop :: "json list \<Rightarrow> nat \<Rightarrow> string \<Rightarrow> error + string" where
  "previewLoop [] shown html = Inr html"
| "previewLoop (c # cs) shown html =
     (if shown \<ge> NOTEBOOK_PREVIEW_CELLS then Inr html
      else (case previewCell c of
              Inl e \<Rightarrow> Inl e
            | Inr None \<Rightarrow> previewLoop cs shown html
            | Inr (Some h) \<Rightarrow> previewLoop cs (shown + 1) (html @ h)))"

text \<open>
  \<open>nb.cells || []\<close> as \<open>for ... of\<close> walks it: an array gives its elements, a string
  its characters, any other value that is not falsy cannot be iterated.
\<close>

definition previewCells :: "json \<Rightarrow> error + json list" where
  "previewCells nb =
     bindE (getProp nb ''cells'') (\<lambda>v.
       if \<not> truthy v then Inr []
       else (case v of
               Some (JArr xs) \<Rightarrow> Inr xs
             | Some (JStr s) \<Rightarrow> Inr (map (\<lambda>ch. JStr [ch]) s)
             | _ \<Rightarrow> Inl TypeError))"

definition renderNotebookPreview :: "json \<Rightarrow> error + string" where
  "renderNotebookPreview nb = bindE (previewCells nb) (\<lambda>cells. previewLoop cells 0 [])"

text \<open>The preview of a script, as the file reader's completion handler builds it.\<close>

definition renderScriptPreview :: "string \<Rightarrow> string" where
  "renderScriptPreview raw =
     ''<pre><code class=\"language-python\">''
     @ escapeHtml (joinWith [CHR 0x0A] (take PYTHON_PREVIEW_LINES (split (CHR 0x0A) raw)))
     @ ''</code></pre>''"

subsection \<open>Full rendering\<close>

text \<open>\<open>v || []\<close> as \<open>forEach\<close> walks it: only an array has that method.\<close>

definition forEachItems :: "json option \<Rightarrow> error + json list" where
  "forEachItems v =
     (if \<not> truthy v then Inr []
      else (case v of Some (JArr xs) \<Rightarrow> Inr xs | _ \<Rightarrow> Inl TypeError))"

text \<open>\<open>o.data && o.data[key]\<close>.\<close>

definition dataPayload :: "json \<Rightarrow> string \<Rightarrow> error + json option" where
  "dataPayload o' key =
     bindE (getProp o' ''data'') (\<lambda>d.
       if truthy d then (case d of Some dv \<Rightarrow> getProp dv key | None \<Rightarrow> Inr None)
       else Inr d)"

definition imgTag :: "string \<Rightarrow> json option \<Rightarrow> error + string" where
  "imgTag mime payload =
     bindE (templateStr payload) (\<lambda>s.
       Inr (''<img src=\"data:'' @ mime @ '';base64,'' @ s @ ''\" style=\"max-width:100%;\">''))"

definition preOut :: "string \<Rightarrow> string" where
  "preOut text = ''<pre class=\"out\">'' @ escapeHtml text @ ''</pre>''"

definition renderOutput :: "json \<Rightarrow> error + string" where
  "renderOutput o' =
     bindE (dataPayload o' ''image/png'') (\<lambda>png.
     if truthy png then imgTag ''image/png'' png
     else bindE (dataPayload o' ''image/jpeg'') (\<lambda>jpeg.
     if truthy jpeg then imgTag ''image/jpeg'' jpeg
     else bindE (dataPayload o' ''image/svg+xml'') (\<lambda>svg.
     if truthy svg then imgTag ''image/svg+xml'' svg
     else bindE (dataPayload o' ''text/plain'') (\<lambda>plain.
     if truthy plain then
       bindE (joinIfArray plain) (\<lambda>text.
       bindE (asString text) (\<lambda>s.
         if \<not> includesJS s ''<Figure size'' \<and> \<not> includesJS s ''Figure(''
         then Inr (preOut s) else Inr []))
     else bindE (getProp o' ''output_type'') (\<lambda>ty.
          bindE (getProp o' ''text'') (\<lambda>txt.
          if ty = Some (JStr ''stream'') \<and> truthy txt then
            bindE (joinIfArray txt) (\<lambda>text.
            bindE (asString text) (\<lambda>s. Inr (preOut s)))
          else Inr []))))))"

fun renderOutputs :: "json list \<Rightarrow> error + string" where
  "renderOutputs [] = Inr []"
| "renderOutputs (x # xs) =
     (case renderOutput x of
        Inl e \<Rightarrow> Inl e
      | Inr h \<Rightarrow> (case renderOutputs xs of Inl e \<Rightarrow> Inl e | Inr r \<Rightarrow> Inr (h @ r)))"

definition fullCell :: "json \<Rightarrow> error + string" where
  "fullCell c =
     bindE (getProp c ''cell_type'') (\<lambda>t.
     bindE (templateStr t) (\<lambda>cls.
     bindE
       (if t = Some (JStr ''markdown'') then
          bindE (getProp c ''source'') (\<lambda>src.
          bindE (joinIfArray src) (\<lambda>text. renderMarkdown text))
        else if t = Some (JStr ''code'') then
          bindE (getProp c ''source'') (\<lambda>src.
          bindE (joinIfArray src) (\<lambda>text.
          bindE (asString (orEmpty text)) (\<lambda>s.
          bindE (getProp c ''outputs'') (\<lambda>outs.
          bindE (forEachItems outs) (\<lambda>os.
          bindE (renderOutputs os) (\<lambda>rendered.
            Inr (''<pre><code class=\"language-python\">'' @ escapeHtml s
                 @ ''</code></pre>'' @ rendered)))))))
        else Inr [])
       (\<lambda>body. Inr (''<div class=\"viewer-cell '' @ cls @ ''\">'' @ body @ ''</div>''))))"

fun fullLoop :: "json list \<Rightarrow> error + string" where
  "fullLoop [] = Inr []"
| "fullLoop (c # cs) =
     (case fullCell c of
        Inl e \<Rightarrow> Inl e
      | Inr h \<Rightarrow> (case fullLoop cs of Inl e \<Rightarrow> Inl e | Inr r \<Rightarrow> Inr (h @ r)))"

definition renderFullNotebook :: "json \<Rightarrow> error + string" where
  "renderFullNotebook nb =
     bindE (getProp nb ''cells'') (\<lambda>v. bindE (forEachItems v) fullLoop)"

text \<open>The full view of a script, as \<open>loadNotebookInModal\<close> builds it.\<close>

definition renderFullScript :: "string \<Rightarrow> string" where
  "renderFullScript raw =
     ''<pre><code class=\"language-python\">'' @ escapeHtml raw @ ''</code></pre>''"

section \<open>Canonical paths and the folder tree\<close>

text \<open>
  A file as the tree builder sees it: its name and the two location hints, each a
  string or \<open>undefined\<close>. \<open>webkitRelativePath\<close> comes from the directory picker,
  \<open>fullPath\<close> is set during the traversal of a dropped directory.
\<close>

record fileRef =
  name :: string
  webkitRelativePath :: "string option"
  fullPath :: "string option"

text \<open>\<open>/\\\\+/g\<close>: two or more backslashes in a row. \<open>/\\/g\<close>: one backslash.\<close>

definition reBackslashRun :: matcher where
  "reBackslashRun prev s =
     (let run = takeWhile (\<lambda>c. c = CHR 0x5C) s
      in if length run \<ge> 2 then Some (''/'', length run) else None)"

definition reBackslash :: matcher where
  "reBackslash prev s =
     (case s of [] \<Rightarrow> None | c # cs \<Rightarrow> (if c = CHR 0x5C then Some (''/'', 1) else None))"

text \<open>\<open>a || b || ''\<close> for two values that are strings or \<open>undefined\<close>.\<close>

definition firstHint :: "string option \<Rightarrow> string option \<Rightarrow> string" where
  "firstHint a b =
     (case a of
        Some p \<Rightarrow> (if p \<noteq> [] then p else (case b of Some q \<Rightarrow> q | None \<Rightarrow> []))
      | None \<Rightarrow> (case b of Some q \<Rightarrow> q | None \<Rightarrow> []))"

definition normalizeFilePath :: "fileRef \<Rightarrow> string" where
  "normalizeFilePath f =
     (let path = firstHint (webkitRelativePath f) (fullPath f)
      in if path = [] then name f
         else replaceAll reBackslash None (replaceAll reBackslashRun None path))"

text \<open>
  A node of the tree is a JavaScript object or, under the key \<open>files\<close>, an array of
  files. Both are modelled by their own properties (an array has its elements
  besides), as a list that is read by key: the keys of a node differ from one another,
  and a new key is put at the end, so that the list has the keys in the order of their
  creation. The order in which the program meets the keys is another one, given with
  the folder view below. No node is shared, so the tree is a value.
\<close>

datatype node =
    Obj "(string \<times> node) list"
  | Arr "fileRef list" "(string \<times> node) list"

fun ownProps :: "node \<Rightarrow> (string \<times> node) list" where
  "ownProps (Obj kvs) = kvs"
| "ownProps (Arr fs kvs) = kvs"

fun withProps :: "node \<Rightarrow> (string \<times> node) list \<Rightarrow> node" where
  "withProps (Obj kvs) kvs' = Obj kvs'"
| "withProps (Arr fs kvs) kvs' = Arr fs kvs'"

fun assign :: "string \<Rightarrow> node \<Rightarrow> (string \<times> node) list \<Rightarrow> (string \<times> node) list" where
  "assign k v [] = [(k, v)]"
| "assign k v ((k', v') # kvs) =
     (if k' = k then (k, v) # kvs else (k', v') # assign k v kvs)"

definition getOwn :: "node \<Rightarrow> string \<Rightarrow> node option" where
  "getOwn n k = map_of (ownProps n) k"

definition setOwn :: "node \<Rightarrow> string \<Rightarrow> node \<Rightarrow> node" where
  "setOwn n k v = withProps n (assign k v (ownProps n))"

text \<open>
  \<open>node[k]\<close> reads an own property, or else a member that the node inherits. The names
  every object inherits from \<open>Object.prototype\<close>, and the names an array has besides
  (its \<open>length\<close> and the methods of \<open>Array.prototype\<close> of ECMAScript 2023), are
  listed. On an array a canonical index names an element: a decimal numeral without a
  leading zero that is at most \<open>2^32 - 2\<close>.
\<close>

definition objectMembers :: "string list" where
  "objectMembers =
     [''constructor'', ''__proto__'', ''toString'', ''valueOf'', ''toLocaleString'',
      ''hasOwnProperty'', ''isPrototypeOf'', ''propertyIsEnumerable'',
      ''__defineGetter__'', ''__defineSetter__'', ''__lookupGetter__'', ''__lookupSetter__'']"

definition arrayMembers :: "string list" where
  "arrayMembers =
     [''length'', ''at'', ''concat'', ''copyWithin'', ''entries'', ''every'', ''fill'', ''filter'',
      ''find'', ''findIndex'', ''findLast'', ''findLastIndex'', ''flat'', ''flatMap'', ''forEach'',
      ''includes'', ''indexOf'', ''join'', ''keys'', ''lastIndexOf'', ''map'', ''pop'', ''push'',
      ''reduce'', ''reduceRight'', ''reverse'', ''shift'', ''slice'', ''some'', ''sort'', ''splice'',
      ''toReversed'', ''toSorted'', ''toSpliced'', ''unshift'', ''values'', ''with'']"

definition isDigit :: "char \<Rightarrow> bool" where
  "isDigit c = (c \<in> set ''0123456789'')"

definition indexValue :: "string \<Rightarrow> int" where
  "indexValue k = foldl (\<lambda>n c. 10 * n + (of_char c - 48)) 0 k"

definition isIndex :: "string \<Rightarrow> bool" where
  "isIndex k = (k \<noteq> [] \<and> list_all isDigit k \<and> (k = ''0'' \<or> hd k \<noteq> CHR ''0'')
                \<and> indexValue k \<le> 4294967294)"

fun namesElement :: "node \<Rightarrow> string \<Rightarrow> bool" where
  "namesElement (Obj kvs) k = False"
| "namesElement (Arr fs kvs) k = isIndex k"

fun inherits :: "node \<Rightarrow> string \<Rightarrow> bool" where
  "inherits (Obj kvs) k = (k \<in> set objectMembers)"
| "inherits (Arr fs kvs) k = (k \<in> set objectMembers \<or> k \<in> set arrayMembers)"

text \<open>
  The value of \<open>node[k]\<close> where it is a node of the tree or \<open>undefined\<close>. An index of
  an array reads or creates an element of it, and a name that the node inherits and
  does not have of its own gives a built-in value: there the run leaves the tree.
\<close>

definition readProp :: "node \<Rightarrow> string \<Rightarrow> error + node option" where
  "readProp n k =
     (if namesElement n k then Inl OutsideTree
      else case getOwn n k of
             Some v \<Rightarrow> Inr (Some v)
           | None \<Rightarrow> (if inherits n k then Inl OutsideTree else Inr None))"

text \<open>
  The inner loop of \<open>buildTree\<close> for one file, from the node reached so far. With no
  part left to begin with the loop body never runs. At the last part the file is
  pushed onto \<open>node.files\<close>, which is created as an empty array when it is missing;
  when \<open>node.files\<close> is an object, it has no \<open>push\<close> to call. At any other part
  \<open>node[part] = node[part] || {}\<close> reads the folder or creates it.
\<close>

fun place :: "fileRef \<Rightarrow> string list \<Rightarrow> node \<Rightarrow> error + node" where
  "place f [] node = Inr node"
| "place f [part] node =
     (case getOwn node ''files'' of
        None \<Rightarrow> Inr (setOwn node ''files'' (Arr [f] []))
      | Some (Arr fs kvs) \<Rightarrow> Inr (setOwn node ''files'' (Arr (fs @ [f]) kvs))
      | Some (Obj kvs) \<Rightarrow> Inl TypeError)"
| "place f (part # rest) node =
     (case readProp node part of
        Inl e \<Rightarrow> Inl e
      | Inr v \<Rightarrow>
          (let child = (case v of None \<Rightarrow> Obj [] | Some c \<Rightarrow> c)
           in case place f rest child of
                Inl e \<Rightarrow> Inl e
              | Inr child' \<Rightarrow> Inr (setOwn node part child')))"

definition pathParts :: "string \<Rightarrow> string list" where
  "pathParts normalized = filter (\<lambda>p. p \<noteq> []) (split (CHR ''/'') normalized)"

text \<open>
  The loop over the files. \<open>f.fullPath = normalized\<close> stores the canonical path in the
  file before it is placed; the files of the input are taken to be distinct objects, so
  that the assignment shows in the tree only.
\<close>

fun buildLoop :: "fileRef list \<Rightarrow> node \<Rightarrow> error + node" where
  "buildLoop [] tree = Inr tree"
| "buildLoop (f # fs) tree =
     (let normalized = normalizeFilePath f;
          f' = f\<lparr>fullPath := Some normalized\<rparr>
      in case place f' (pathParts normalized) tree of
           Inl e \<Rightarrow> Inl e
         | Inr tree' \<Rightarrow> buildLoop fs tree')"

definition buildTree :: "fileRef list \<Rightarrow> error + node" where
  "buildTree files = buildLoop files (Obj [])"

section \<open>Folder view and navigation\<close>

text \<open>
  The gallery that \<open>renderFolderView\<close> builds is modelled by its cards: one for each
  subfolder, then one for each file of the folder. \<open>Object.entries\<close> lists the elements
  of an array under their indices, then the own keys of the node: those that are
  canonical indices first, in ascending order, the others in the order of their
  creation.
\<close>

datatype card = FolderCard string | FileCard fileRef

definition endsWith :: "string \<Rightarrow> string \<Rightarrow> bool" where
  "endsWith s t = startsWith (rev s) (rev t)"

function decimal :: "nat \<Rightarrow> string" where
  "decimal n =
     (if n < 10 then [char_of (48 + n)] else decimal (n div 10) @ [char_of (48 + n mod 10)])"
  by pat_completeness auto
termination
  by (relation "measure (\<lambda>n. n)") auto

definition orderedKeys :: "string list \<Rightarrow> string list" where
  "orderedKeys ks = sort_key indexValue (filter isIndex ks) @ filter (\<lambda>k. \<not> isIndex k) ks"

fun entryKeys :: "node \<Rightarrow> string list" where
  "entryKeys (Obj kvs) = orderedKeys (map fst kvs)"
| "entryKeys (Arr fs kvs) = map decimal [0..<length fs] @ orderedKeys (map fst kvs)"

text \<open>
  \<open>renderFolderView(node)\<close>, with the flag \<open>showPyFiles\<close> as a parameter. A key
  \<open>files\<close> and keys that begin with \<open>._\<close> get no folder card. When \<open>node.files\<close> is
  there, \<open>node.files.forEach\<close> walks the files; an object has no such method. A
  script gets no card while the flag is off.
\<close>

definition fileExt :: "fileRef \<Rightarrow> string" where
  "fileExt f = (if endsWith (name f) ''.py'' then ''py'' else ''ipynb'')"

definition renderFolderView :: "bool \<Rightarrow> node \<Rightarrow> error + card list" where
  "renderFolderView showPy node =
     (let folders = map FolderCard
                      (filter (\<lambda>k. k \<noteq> ''files'' \<and> \<not> startsWith k ''._'') (entryKeys node))
      in case getOwn node ''files'' of
           None \<Rightarrow> Inr folders
         | Some (Arr fs kvs) \<Rightarrow>
             Inr (folders @ map FileCard (filter (\<lambda>f. \<not> (\<not> showPy \<and> fileExt f = ''py'')) fs))
         | Some (Obj kvs) \<Rightarrow> Inl TypeError)"

text \<open>
  The state the breadcrumb handler works on: the tree, the navigation path, the flag,
  the diagnostics written with \<open>console.warn\<close> (the segment that was not found and the
  path it was looked up in) and the cards of the gallery. An exception ends the
  handler, which then returns no state.
\<close>

record session =
  folderStructure :: node
  currentPath :: "string list"
  showPyFiles :: bool
  warnings :: "(string \<times> string list) list"
  shownCards :: "card list"

text \<open>
  The \<open>for ... of\<close> loop of the handler: it stops at the first segment \<open>p\<close> for which
  \<open>node[p]\<close> is not there, and reports it.
\<close>

datatype resolution = Found node | NotFound string

fun resolveLoop :: "node \<Rightarrow> string list \<Rightarrow> error + resolution" where
  "resolveLoop node [] = Inr (Found node)"
| "resolveLoop node (p # ps) =
     (case readProp node p of
        Inl e \<Rightarrow> Inl e
      | Inr None \<Rightarrow> Inr (NotFound p)
      | Inr (Some child) \<Rightarrow> resolveLoop child ps)"

definition showNode :: "session \<Rightarrow> node \<Rightarrow> error + session" where
  "showNode st node =
     (case renderFolderView (showPyFiles st) node of
        Inl e \<Rightarrow> Inl e
      | Inr cards \<Rightarrow> Inr (st\<lparr>shownCards := cards\<rparr>))"

text \<open>
  The click handler of breadcrumb \<open>i\<close>: it cuts the path, resolves it, falls back to
  the root where a segment is not found, and calls \<open>renderFolderView\<close> last.
\<close>

definition jumpToBreadcrumb :: "session \<Rightarrow> nat \<Rightarrow> error + session" where
  "jumpToBreadcrumb st i =
     (let path = take (i + 1) (currentPath st)
      in case resolveLoop (folderStructure st) path of
           Inl e \<Rightarrow> Inl e
         | Inr (Found node) \<Rightarrow> showNode (st\<lparr>currentPath := path\<rparr>) node
         | Inr (NotFound p) \<Rightarrow>
             showNode (st\<lparr>currentPath := [], warnings := warnings st @ [(p, path)]\<rparr>)
                      (folderStructure st))"

text \<open>
  The handler of the older copy of the script (\<open>js/nbexplorer.js\<close>) has no guard:
  \<open>currentPath.forEach(p => node = node[p])\<close> reads a property of \<open>undefined\<close> after a
  segment that is not found, and \<open>renderFolderView(undefined)\<close> fails as well. The
  folder view of that copy gives a card to every key but \<open>files\<close>.
\<close>

definition renderFolderViewOlder :: "bool \<Rightarrow> node \<Rightarrow> error + card list" where
  "renderFolderViewOlder showPy node =
     (let folders = map FolderCard (filter (\<lambda>k. k \<noteq> ''files'') (entryKeys node))
      in case getOwn node ''files'' of
           None \<Rightarrow> Inr folders
         | Some (Arr fs kvs) \<Rightarrow>
             Inr (folders @ map FileCard (filter (\<lambda>f. \<not> (\<not> showPy \<and> fileExt f = ''py'')) fs))
         | Some (Obj kvs) \<Rightarrow> Inl TypeError)"

fun unguardedLoop :: "node option \<Rightarrow> string list \<Rightarrow> error + node option" where
  "unguardedLoop node [] = Inr node"
| "unguardedLoop node (p # ps) =
     (case node of
        None \<Rightarrow> Inl TypeError
      | Some n \<Rightarrow> (case readProp n p of Inl e \<Rightarrow> Inl e | Inr v \<Rightarrow> unguardedLoop v ps))"

definition jumpToBreadcrumbUnguarded :: "session \<Rightarrow> nat \<Rightarrow> error + session" where
  "jumpToBreadcrumbUnguarded st i =
     (let path = take (i + 1) (currentPath st)
      in case unguardedLoop (Some (folderStructure st)) path of
           Inl e \<Rightarrow> Inl e
         | Inr None \<Rightarrow> Inl TypeError
         | Inr (Some node) \<Rightarrow>
             (case renderFolderViewOlder (showPyFiles st) node of
                Inl e \<Rightarrow> Inl e
              | Inr cards \<Rightarrow> Inr (st\<lparr>currentPath := path, shownCards := cards\<rparr>)))"

section \<open>Card registry and viewer\<close>

text \<open>
  An entry of \<open>cardMap\<close>, and the state of the viewer: the navigation list, the cursor,
  the two buttons (which the page is taken to have), what the viewer shows, and the
  alerts raised. A card of the gallery is modelled by its \<open>dataset.cardId\<close>, which
  folder cards and files not yet loaded do not have. \<open>JSON.parse\<close> is a parameter: it
  gives the parsed notebook, or nothing when it throws. An exception of the full
  rendering is not caught by the viewer: it ends the handler, which then returns no
  state.
\<close>

record meta =
  filename :: string
  raw :: string
  type :: string

record viewer =
  navigationCardIds :: "string list"
  currentCardIndex :: int
  prevDisabled :: bool
  nextDisabled :: bool
  viewerTitle :: string
  viewerBody :: string
  modalShown :: bool
  alerts :: "string list"

definition getAllCardIds :: "string option list \<Rightarrow> string list" where
  "getAllCardIds gallery =
     concat (map (\<lambda>card. case card of None \<Rightarrow> [] | Some i \<Rightarrow> (if i \<noteq> [] then [i] else [])) gallery)"

fun indexOf :: "string list \<Rightarrow> string \<Rightarrow> int" where
  "indexOf [] x = - 1"
| "indexOf (y # ys) x =
     (if y = x then 0 else (let r = indexOf ys x in if r < 0 then - 1 else r + 1))"

text \<open>\<open>xs[i]\<close>: \<open>undefined\<close> outside the list.\<close>

definition at :: "'a list \<Rightarrow> int \<Rightarrow> 'a option" where
  "at xs i = (if 0 \<le> i \<and> i < int (length xs) then Some (xs ! nat i) else None)"

definition loadNotebookInModal :: "(string \<Rightarrow> json option) \<Rightarrow> meta \<Rightarrow> viewer \<Rightarrow> error + viewer" where
  "loadNotebookInModal parse m v =
     (let v1 = v\<lparr>viewerTitle := filename m\<rparr>
      in if type m = ''py'' then Inr (v1\<lparr>viewerBody := renderFullScript (raw m)\<rparr>)
         else (case parse (raw m) of
                 None \<Rightarrow> Inr (v1\<lparr>alerts := alerts v1 @ [''Parse error'']\<rparr>)
               | Some nb \<Rightarrow>
                   (case renderFullNotebook nb of
                      Inl e \<Rightarrow> Inl e
                    | Inr html \<Rightarrow> Inr (v1\<lparr>viewerBody := html\<rparr>))))"

definition updateNavigationButtons :: "viewer \<Rightarrow> viewer" where
  "updateNavigationButtons v =
     (let hasPrev = currentCardIndex v > 0;
          hasNext = currentCardIndex v < int (length (navigationCardIds v)) - 1
      in v\<lparr>prevDisabled := \<not> hasPrev, nextDisabled := \<not> hasNext\<rparr>)"

definition openNotebookModal ::
    "(string \<Rightarrow> json option) \<Rightarrow> (string \<Rightarrow> meta option) \<Rightarrow> string option list \<Rightarrow> string \<Rightarrow> viewer
     \<Rightarrow> error + viewer" where
  "openNotebookModal parse cardMap gallery cardId v =
     (case cardMap cardId of
        None \<Rightarrow> Inr v
      | Some m \<Rightarrow>
          (let v1 = v\<lparr>navigationCardIds := getAllCardIds gallery,
                       currentCardIndex := indexOf (getAllCardIds gallery) cardId\<rparr>
           in case loadNotebookInModal parse m v1 of
                Inl e \<Rightarrow> Inl e
              | Inr v2 \<Rightarrow> Inr ((updateNavigationButtons v2)\<lparr>modalShown := True\<rparr>)))"

text \<open>The common part of \<open>navigatePrevious\<close> and \<open>navigateNext\<close> after the cursor moved.\<close>

definition showCurrent ::
    "(string \<Rightarrow> json option) \<Rightarrow> (string \<Rightarrow> meta option) \<Rightarrow> viewer \<Rightarrow> error + viewer" where
  "showCurrent parse cardMap v =
     (case (case at (navigationCardIds v) (currentCardIndex v) of
              None \<Rightarrow> None | Some cardId \<Rightarrow> cardMap cardId) of
        None \<Rightarrow> Inr v
      | Some m \<Rightarrow>
          (case loadNotebookInModal parse m v of
             Inl e \<Rightarrow> Inl e
           | Inr v' \<Rightarrow> Inr (updateNavigationButtons v')))"

definition navigatePrevious ::
    "(string \<Rightarrow> json option) \<Rightarrow> (string \<Rightarrow> meta option) \<Rightarrow> viewer \<Rightarrow> error + viewer" where
  "navigatePrevious parse cardMap v =
     (if currentCardIndex v > 0 \<and> \<not> prevDisabled v
      then showCurrent parse cardMap (v\<lparr>currentCardIndex := currentCardIndex v - 1\<rparr>)
      else Inr v)"

definition navigateNext ::
    "(string \<Rightarrow> json option) \<Rightarrow> (string \<Rightarrow> meta option) \<Rightarrow> viewer \<Rightarrow> error + viewer" where
  "navigateNext parse cardMap v =
     (if currentCardIndex v < int (length (navigationCardIds v)) - 1 \<and> \<not> nextDisabled v
      then showCurrent parse cardMap (v\<lparr>currentCardIndex := currentCardIndex v + 1\<rparr>)
      else Inr v)"

section \<open>Notions used in the statements\<close>

subsection \<open>Renderer\<close>

text \<open>
  The cells that count against the preview limit, the markup one of them contributes,
  and the concatenation of markups in which the first failure wins.
\<close>

definition counted :: "json \<Rightarrow> bool" where
  "counted c = (getProp c ''cell_type'' = Inr (Some (JStr ''markdown''))
              \<or> getProp c ''cell_type'' = Inr (Some (JStr ''code'')))"

definition renderedHtml :: "json \<Rightarrow> error + string" where
  "renderedHtml c = bindE (previewCell c) (\<lambda>r. Inr (case r of None \<Rightarrow> [] | Some h \<Rightarrow> h))"

fun concatE :: "(error + string) list \<Rightarrow> error + string" where
  "concatE [] = Inr []"
| "concatE (x # xs) =
     (case x of Inl e \<Rightarrow> Inl e
      | Inr h \<Rightarrow> (case concatE xs of Inl e \<Rightarrow> Inl e | Inr r \<Rightarrow> Inr (h @ r)))"

text \<open>
  The shape of a notebook that is incomplete but not ill-typed: every part may be
  absent or \<open>null\<close>; a part that is present is what the notebook format says. A text
  is a string or a list of strings.
\<close>

definition isText :: "json \<Rightarrow> bool" where
  "isText j = (case j of JStr s \<Rightarrow> True | _ \<Rightarrow> False)"

definition absentOrText :: "json option \<Rightarrow> bool" where
  "absentOrText v =
     (case v of None \<Rightarrow> True | Some JNull \<Rightarrow> True | Some (JStr s) \<Rightarrow> True | Some _ \<Rightarrow> False)"

definition textOrLines :: "json option \<Rightarrow> bool" where
  "textOrLines v =
     (case v of None \<Rightarrow> True | Some JNull \<Rightarrow> True | Some (JStr s) \<Rightarrow> True
      | Some (JArr xs) \<Rightarrow> list_all isText xs | Some _ \<Rightarrow> False)"

definition dataShape :: "json option \<Rightarrow> bool" where
  "dataShape v =
     (case v of None \<Rightarrow> True | Some JNull \<Rightarrow> True
      | Some (JObj d) \<Rightarrow>
          textOrLines (map_of d ''image/png'') \<and> textOrLines (map_of d ''image/jpeg'')
          \<and> textOrLines (map_of d ''image/svg+xml'') \<and> textOrLines (map_of d ''text/plain'')
      | Some _ \<Rightarrow> False)"

definition outputShape :: "json \<Rightarrow> bool" where
  "outputShape o' =
     (case o' of
        JObj kvs \<Rightarrow> dataShape (map_of kvs ''data'') \<and> textOrLines (map_of kvs ''text'')
      | _ \<Rightarrow> False)"

definition outputsShape :: "json option \<Rightarrow> bool" where
  "outputsShape v =
     (case v of None \<Rightarrow> True | Some JNull \<Rightarrow> True
      | Some (JArr os) \<Rightarrow> list_all outputShape os | Some _ \<Rightarrow> False)"

definition cellShape :: "json \<Rightarrow> bool" where
  "cellShape c =
     (case c of
        JObj kvs \<Rightarrow> absentOrText (map_of kvs ''cell_type'') \<and> textOrLines (map_of kvs ''source'')
                    \<and> outputsShape (map_of kvs ''outputs'')
      | _ \<Rightarrow> False)"

definition notebookShape :: "json \<Rightarrow> bool" where
  "notebookShape nb =
     (case nb of
        JObj kvs \<Rightarrow>
          (case map_of kvs ''cells'' of None \<Rightarrow> True | Some JNull \<Rightarrow> True
           | Some (JArr cs) \<Rightarrow> list_all cellShape cs | Some _ \<Rightarrow> False)
      | _ \<Rightarrow> False)"

subsection \<open>Example notebooks\<close>

text \<open>A notebook whose only cell is a markdown cell that holds markup.\<close>

definition scriptTagNotebook :: json where
  "scriptTagNotebook =
     JObj [(''cells'', JArr [JObj [(''cell_type'', JStr ''markdown''),
                                   (''source'', JStr ''<script>&\"'</script>'')]])]"

text \<open>
  A code cell with two outputs, a plain text and then a PNG image; the same two payloads
  written without the \<open>data\<close> bundle around them; and one output that holds both.
\<close>

definition textThenImageNotebook :: json where
  "textThenImageNotebook =
     JObj [(''cells'', JArr [JObj [(''cell_type'', JStr ''code''), (''source'', JStr []),
       (''outputs'', JArr [JObj [(''data'', JObj [(''text/plain'', JStr ''42'')])],
                           JObj [(''data'', JObj [(''image/png'', JStr ''AAAA'')])]])]])]"

definition barePayloadsNotebook :: json where
  "barePayloadsNotebook =
     JObj [(''cells'', JArr [JObj [(''cell_type'', JStr ''code''), (''source'', JStr []),
       (''outputs'', JArr [JObj [(''text/plain'', JStr ''42'')],
                           JObj [(''image/png'', JStr ''AAAA'')]])]])]"

definition textAndImageOutput :: json where
  "textAndImageOutput =
     JObj [(''data'', JObj [(''text/plain'', JStr ''42''), (''image/png'', JStr ''AAAA'')])]"

text \<open>Cells \<open>[markdown, raw, code, code, markdown]\<close>.\<close>

definition fiveCells :: "json list" where
  "fiveCells =
     [JObj [(''cell_type'', JStr ''markdown''), (''source'', JStr ''A'')],
      JObj [(''cell_type'', JStr ''raw''), (''source'', JStr ''R'')],
      JObj [(''cell_type'', JStr ''code''), (''source'', JArr [JStr ''x = 1'', JStr [CHR 0x0A]])],
      JObj [(''cell_type'', JStr ''code''), (''source'', JStr ''y'')],
      JObj [(''cell_type'', JStr ''markdown''), (''source'', JStr ''B'')]]"

text \<open>
  A notebook with a \<open>null\<close> in the place of a cell, and one whose cells lack a type, a
  source or outputs.
\<close>

definition nullCellNotebook :: json where
  "nullCellNotebook = JObj [(''cells'', JArr [JNull])]"

definition incompleteNotebook :: json where
  "incompleteNotebook =
     JObj [(''cells'', JArr [JObj [],
                             JObj [(''cell_type'', JStr ''code'')],
                             JObj [(''cell_type'', JStr ''markdown''), (''source'', JNull)]])]"

subsection \<open>Paths, trees and the viewer\<close>

text \<open>
  What the two replacements of \<open>normalizeFilePath\<close> amount to: every maximal run of
  backslashes becomes one forward slash. The flag says whether the character before
  was a backslash.
\<close>

fun collapseRuns :: "bool \<Rightarrow> string \<Rightarrow> string" where
  "collapseRuns inRun [] = []"
| "collapseRuns inRun (c # cs) =
     (if c = CHR 0x5C then (if inRun then collapseRuns True cs else CHR ''/'' # collapseRuns True cs)
      else c # collapseRuns False cs)"

definition dropped :: "string \<Rightarrow> string \<Rightarrow> fileRef" where
  "dropped n p = \<lparr>name = n, webkitRelativePath = None, fullPath = Some p\<rparr>"

definition picked :: "string \<Rightarrow> string \<Rightarrow> fileRef" where
  "picked n p = \<lparr>name = n, webkitRelativePath = Some p, fullPath = None\<rparr>"

text \<open>
  The files found by walking from a node along folder names and reading the \<open>files\<close>
  list there; the file as the builder stores it; the folder a file belongs to; and the
  inputs the builder is made for: at least one segment, no folder named \<open>files\<close> and
  none named like a member that every object inherits.
\<close>

fun filesAt :: "node \<Rightarrow> string list \<Rightarrow> fileRef list" where
  "filesAt node [] = (case getOwn node ''files'' of Some (Arr fs kvs) \<Rightarrow> fs | _ \<Rightarrow> [])"
| "filesAt node (p # ps) = (case getOwn node p of Some child \<Rightarrow> filesAt child ps | None \<Rightarrow> [])"

definition stored :: "fileRef \<Rightarrow> fileRef" where
  "stored f = f\<lparr>fullPath := Some (normalizeFilePath f)\<rparr>"

definition folderOf :: "fileRef \<Rightarrow> string list" where
  "folderOf f = butlast (pathParts (normalizeFilePath f))"

definition folderName :: "string \<Rightarrow> bool" where
  "folderName p = (p \<noteq> ''files'' \<and> p \<notin> set objectMembers)"

definition placeable :: "fileRef \<Rightarrow> bool" where
  "placeable f = (pathParts (normalizeFilePath f) \<noteq> [] \<and> list_all folderName (folderOf f))"

text \<open>
  The trees the builder makes from such inputs: under \<open>files\<close> a list of files, under
  every other key a folder of the same kind.
\<close>

fun isFileList :: "node \<Rightarrow> bool" where
  "isFileList (Arr fs kvs) = True"
| "isFileList (Obj kvs) = False"

fun folderTree :: "node \<Rightarrow> bool" where
  "folderTree (Obj kvs) =
     list_all (\<lambda>(k, v). if k = ''files'' then isFileList v else folderTree v) kvs"
| "folderTree (Arr fs kvs) = False"

text \<open>Resolving a path from a node, one segment at a time.\<close>

fun walk :: "node \<Rightarrow> string list \<Rightarrow> error + node option" where
  "walk node [] = Inr (Some node)"
| "walk node (p # ps) =
     (case readProp node p of
        Inl e \<Rightarrow> Inl e
      | Inr None \<Rightarrow> Inr None
      | Inr (Some child) \<Rightarrow> walk child ps)"



definition stalePath :: session where
  "stalePath =
     \<lparr>folderStructure = Obj [(''files'', Obj [(''files'', Arr [dropped ''x.py'' ''files/x.py''] [])])],
      currentPath = [''gone''], showPyFiles = True, warnings = [], shownCards = []\<rparr>"

definition treeAB :: node where
  "treeAB = Obj [(''a'', Obj [(''b'', Obj [(''files'', Arr [dropped ''x.ipynb'' ''a/b/x.ipynb''] [])])])]"

text \<open>A gallery with a folder card and three loaded files, and one with a single file.\<close>

definition threeCards :: "string option list" where
  "threeCards = [None, Some ''k1'', Some ''k2'', Some ''k3'']"

definition oneCard :: "string option list" where
  "oneCard = [Some ''k1'']"

definition scriptMeta :: meta where
  "scriptMeta = \<lparr>filename = ''a.py'', raw = ''print(1)'', type = ''py''\<rparr>"

definition threeEntries :: "string \<Rightarrow> meta option" where
  "threeEntries = map_of [(''k1'', scriptMeta), (''k2'', scriptMeta), (''k3'', scriptMeta)]"

definition closedViewer :: viewer where
  "closedViewer =
     \<lparr>navigationCardIds = [], currentCardIndex = - 1, prevDisabled = False,
      nextDisabled = False, viewerTitle = [], viewerBody = [], modalShown = False, alerts = []\<rparr>"

section \<open>Properties of the renderer\<close>

lemmas render_defs = renderNotebookPreview_def previewCells_def previewCell_def bindE_def truthy_def
  joinIfArray_def asString_def orEmpty_def renderMarkdown_def markdownReplacements_def
  reBlankLine_def reInlineCode_def reDelimited_def reHeader_def startsWith_def
  isLineTerminator_def NOTEBOOK_PREVIEW_CELLS_def escapeHtml_def reSpecial_def trim_def
  isWhiteSpace_def renderFullNotebook_def forEachItems_def fullCell_def templateStr_def
  renderOutput_def dataPayload_def imgTag_def preOut_def

lemma bindE_simps: "bindE (Inl e) f = Inl e" "bindE (Inr x) f = f x"
  by (simp_all add: bindE_def)

subsection \<open>Escaping\<close>

text \<open>
  \<open>escapeHtml\<close> itself does what its comment says: its result holds no angle bracket
  and no quote of either kind.
\<close>

lemma replaceAll_reSpecial_no_raw:
  "set (replaceAll reSpecial prev s) \<inter> {CHR ''<'', CHR ''>'', CHR 0x22, CHR 0x27} = {}"
  by (induction s arbitrary: prev) (auto simp: reSpecial_def)

lemma escapeHtml_no_raw:
  "set (escapeHtml s) \<inter> {CHR ''<'', CHR ''>'', CHR 0x22, CHR 0x27} = {}"
  by (simp only: escapeHtml_def replaceAll_reSpecial_no_raw)

text \<open>
  Claim C1: every user-supplied text that preview or full rendering inserts into the
  markup is HTML-escaped first, so that a text holding \<open><script>&"'</script>\<close> leaves
  no raw \<open><\<close>, \<open>>\<close>, \<open>&\<close> or quote in the result. The README promises the same
  (all file contents are escaped before rendering). Code sources, output texts and
  script lines go through \<open>escapeHtml\<close>; the source of a markdown cell does not:
  \<open>renderMarkdown\<close> inserts it as it is, in the preview and in the full view.
\<close>

theorem markdown_source_not_escaped:
  "renderNotebookPreview scriptTagNotebook = Inr ''<p><script>&\"'</script></p>''
   \<and> renderFullNotebook scriptTagNotebook =
       Inr ''<div class=\"viewer-cell markdown\"><p><script>&\"'</script></p></div>''"
  by (simp add: scriptTagNotebook_def render_defs)

subsection \<open>Outputs of a code cell\<close>

lemma renderOutputs_concatE: "renderOutputs os = concatE (map renderOutput os)"
  by (induction os) (auto split: sum.splits)

lemma png_first:
  assumes "getProp o' ''data'' = Inr (Some (JObj d))"
    and "map_of d ''image/png'' = Some (JStr p)" and "p \<noteq> []"
  shows "renderOutput o' =
           Inr (''<img src=\"data:image/png;base64,'' @ p @ ''\" style=\"max-width:100%;\">'')"
  using assms
  by (simp add: renderOutput_def dataPayload_def imgTag_def templateStr_def truthy_def bindE_simps)

text \<open>
  Claim C2, as stated: for the outputs \<open>[{text/plain: "42"}, {image/png: "AAAA"}]\<close> the
  full rendering holds the PNG image and not the text 42. It fails: the two payloads
  belong to two outputs, each output is rendered by itself, and the text comes out
  before the image. (Written without the \<open>data\<close> bundle, neither payload is read and
  no image comes out.)
\<close>

theorem text_then_image_both_rendered:
  "renderFullNotebook textThenImageNotebook =
     Inr (''<div class=\"viewer-cell code\"><pre><code class=\"language-python\"></code></pre>''
          @ ''<pre class=\"out\">42</pre>''
          @ ''<img src=\"data:image/png;base64,AAAA\" style=\"max-width:100%;\">''
          @ ''</div>'')
   \<and> renderFullNotebook barePayloadsNotebook =
       Inr ''<div class=\"viewer-cell code\"><pre><code class=\"language-python\"></code></pre></div>''"
  by (simp add: textThenImageNotebook_def barePayloadsNotebook_def render_defs)

text \<open>
  Claim C2, amended: the outputs of a code cell are rendered one by one in the order of
  the list. The precedence is among the payloads of one output: an output whose data
  bundle holds a non-empty PNG payload is rendered as that image and nothing else,
  whatever else the bundle holds and in whatever order.
\<close>

theorem image_precedence_within_one_output:
  "renderOutputs os = concatE (map renderOutput os)
   \<and> (getProp o' ''data'' = Inr (Some (JObj d)) \<and> map_of d ''image/png'' = Some (JStr p) \<and> p \<noteq> []
        \<longrightarrow> renderOutput o' =
              Inr (''<img src=\"data:image/png;base64,'' @ p @ ''\" style=\"max-width:100%;\">''))"
  using renderOutputs_concatE png_first by blast

theorem image_precedence_within_one_output_witness:
  "renderOutputs [JObj [(''data'', JObj [(''text/plain'', JStr ''42'')])],
                  JObj [(''data'', JObj [(''image/png'', JStr ''AAAA'')])]]
     = Inr (''<pre class=\"out\">42</pre>''
            @ ''<img src=\"data:image/png;base64,AAAA\" style=\"max-width:100%;\">'')
   \<and> getProp textAndImageOutput ''data''
       = Inr (Some (JObj [(''text/plain'', JStr ''42''), (''image/png'', JStr ''AAAA'')]))
   \<and> map_of [(''text/plain'', JStr ''42''), (''image/png'', JStr ''AAAA'')] ''image/png''
       = Some (JStr ''AAAA'')
   \<and> renderOutput textAndImageOutput =
       Inr ''<img src=\"data:image/png;base64,AAAA\" style=\"max-width:100%;\">''"
proof -
  let ?os = "[JObj [(''data'', JObj [(''text/plain'', JStr ''42'')])],
              JObj [(''data'', JObj [(''image/png'', JStr ''AAAA'')])]]"
  let ?d = "[(''text/plain'', JStr ''42''), (''image/png'', JStr ''AAAA'')]"
  note inst = image_precedence_within_one_output[of ?os textAndImageOutput ?d "''AAAA''"]
  have a: "getProp textAndImageOutput ''data'' = Inr (Some (JObj ?d))"
    by (simp add: textAndImageOutput_def)
  have b: "map_of ?d ''image/png'' = Some (JStr ''AAAA'')"
    by simp
  have c: "concatE (map renderOutput ?os)
             = Inr (''<pre class=\"out\">42</pre>''
                    @ ''<img src=\"data:image/png;base64,AAAA\" style=\"max-width:100%;\">'')"
    by (simp add: render_defs)
  from inst a b c show ?thesis by simp
qed

subsection \<open>The preview limit\<close>

lemma previewCell_uncounted: "c \<noteq> JNull \<Longrightarrow> \<not> counted c \<Longrightarrow> previewCell c = Inr None"
  by (cases c) (auto simp: previewCell_def counted_def bindE_def)

lemma previewCell_counted: "counted c \<Longrightarrow> previewCell c \<noteq> Inr None"
  by (cases c) (auto simp: previewCell_def counted_def bindE_def split: sum.splits)

lemma previewLoop_spec:
  "JNull \<notin> set cs \<Longrightarrow> shown \<le> NOTEBOOK_PREVIEW_CELLS \<Longrightarrow>
   previewLoop cs shown html =
     bindE (concatE (map renderedHtml (take (NOTEBOOK_PREVIEW_CELLS - shown) (filter counted cs))))
       (\<lambda>r. Inr (html @ r))"
proof (induction cs arbitrary: shown html)
  case Nil
  then show ?case by (simp add: bindE_def)
next
  case (Cons c cs)
  show ?case
  proof (cases "shown \<ge> NOTEBOOK_PREVIEW_CELLS")
    case True
    with Cons.prems have "NOTEBOOK_PREVIEW_CELLS - shown = 0" by simp
    with True show ?thesis by (simp add: bindE_def)
  next
    case False
    then have lt: "shown < NOTEBOOK_PREVIEW_CELLS" by simp
    then obtain k where k: "NOTEBOOK_PREVIEW_CELLS - shown = Suc k" "NOTEBOOK_PREVIEW_CELLS - (shown + 1) = k"
      by (cases "NOTEBOOK_PREVIEW_CELLS - shown") auto
    from Cons.prems have nn: "c \<noteq> JNull" "JNull \<notin> set cs" by auto
    show ?thesis
    proof (cases "counted c")
      case nc: False
      with nn have "previewCell c = Inr None" by (simp add: previewCell_uncounted)
      with nc False Cons.IH[OF nn(2) Cons.prems(2)] show ?thesis by simp
    next
      case ct: True
      show ?thesis
      proof (cases "previewCell c")
        case (Inl e)
        with ct False k show ?thesis by (simp add: renderedHtml_def bindE_def)
      next
        case (Inr r)
        with previewCell_counted[OF ct] obtain h where h: "previewCell c = Inr (Some h)"
          by (cases r) auto
        from lt have "shown + 1 \<le> NOTEBOOK_PREVIEW_CELLS" by simp
        from Cons.IH[OF nn(2) this] h ct False k show ?thesis
          by (simp add: renderedHtml_def bindE_def split: sum.splits)
      qed
    qed
  qed
qed

text \<open>
  Claim C9: the preview walks the cells in document order and renders at most three of
  them; only markdown and code cells count, a cell of any other type is passed over
  without using up the limit. So the preview is the markup of the first three markdown
  or code cells, in order. (A \<open>null\<close> among the cells is no cell: reading its type
  raises.)
\<close>

theorem preview_renders_first_three_counted:
  assumes "getProp nb ''cells'' = Inr (Some (JArr cs))" and "JNull \<notin> set cs"
  shows "renderNotebookPreview nb =
           concatE (map renderedHtml (take NOTEBOOK_PREVIEW_CELLS (filter counted cs)))
         \<and> length (take NOTEBOOK_PREVIEW_CELLS (filter counted cs)) \<le> 3"
proof -
  have "previewCells nb = Inr cs"
    using assms(1) by (simp add: previewCells_def bindE_def truthy_def)
  then show ?thesis
    using previewLoop_spec[OF assms(2), of 0 "[]"]
    by (simp add: renderNotebookPreview_def bindE_def NOTEBOOK_PREVIEW_CELLS_def split: sum.splits)
qed

theorem preview_renders_first_three_counted_witness:
  "getProp (JObj [(''cells'', JArr fiveCells)]) ''cells'' = Inr (Some (JArr fiveCells))
   \<and> JNull \<notin> set fiveCells
   \<and> take NOTEBOOK_PREVIEW_CELLS (filter counted fiveCells) = [fiveCells ! 0, fiveCells ! 2, fiveCells ! 3]
   \<and> renderNotebookPreview (JObj [(''cells'', JArr fiveCells)]) =
       Inr (''<p>A</p>''
            @ ''<pre><code class=\"language-python\">x = 1</code></pre>''
            @ ''<pre><code class=\"language-python\">y</code></pre>'')"
proof -
  have a: "getProp (JObj [(''cells'', JArr fiveCells)]) ''cells'' = Inr (Some (JArr fiveCells))"
    by simp
  have b: "JNull \<notin> set fiveCells"
    by (simp add: fiveCells_def)
  have c: "take NOTEBOOK_PREVIEW_CELLS (filter counted fiveCells)
             = [fiveCells ! 0, fiveCells ! 2, fiveCells ! 3]"
    by (simp add: fiveCells_def counted_def NOTEBOOK_PREVIEW_CELLS_def)
  have d: "concatE (map renderedHtml [fiveCells ! 0, fiveCells ! 2, fiveCells ! 3]) =
       Inr (''<p>A</p>''
            @ ''<pre><code class=\"language-python\">x = 1</code></pre>''
            @ ''<pre><code class=\"language-python\">y</code></pre>'')"
    by (simp add: fiveCells_def renderedHtml_def render_defs)
  from preview_renders_first_three_counted[OF a b] a b c d show ?thesis
    by simp
qed

subsection \<open>Incomplete notebooks\<close>

lemma joinJS_texts: "list_all isText xs \<Longrightarrow> \<exists>s. joinJS sep xs = Inr s"
proof (induction xs)
  case Nil
  then show ?case by simp
next
  case (Cons x xs)
  then obtain s where "x = JStr s" by (cases x) (auto simp: isText_def)
  moreover from Cons obtain r where "joinJS sep xs = Inr r" by auto
  ultimately show ?case by simp
qed

text \<open>After the optional join a well-shaped text is absent, null or a string.\<close>

lemma joinIfArray_textOrLines:
  "textOrLines v \<Longrightarrow> \<exists>w. joinIfArray v = Inr w \<and> absentOrText w \<and> (truthy v \<longrightarrow> (\<exists>s. w = Some (JStr s)))"
proof (cases v)
  case None
  then show ?thesis by (simp add: joinIfArray_def absentOrText_def truthy_def)
next
  case (Some j)
  assume t: "textOrLines v"
  show ?thesis
  proof (cases j)
    case (JArr xs)
    with Some t have "list_all isText xs" by (simp add: textOrLines_def)
    then obtain s where "joinJS [] xs = Inr s" using joinJS_texts by blast
    with Some JArr show ?thesis by (simp add: joinIfArray_def bindE_def absentOrText_def)
  qed (use Some t in \<open>auto simp: joinIfArray_def absentOrText_def textOrLines_def truthy_def\<close>)
qed

lemma renderMarkdown_absentOrText: "absentOrText w \<Longrightarrow> \<exists>h. renderMarkdown w = Inr h"
  by (auto simp: absentOrText_def renderMarkdown_def truthy_def asString_def bindE_def
           split: option.splits json.splits)

lemma asString_orEmpty: "absentOrText w \<Longrightarrow> \<exists>s. asString (orEmpty w) = Inr s"
  by (auto simp: absentOrText_def orEmpty_def truthy_def asString_def
           split: option.splits json.splits)

lemma previewCell_shape: "cellShape c \<Longrightarrow> \<exists>r. previewCell c = Inr r"
proof -
  assume cs: "cellShape c"
  then obtain kvs where c: "c = JObj kvs" by (cases c) (auto simp: cellShape_def)
  with cs have "textOrLines (map_of kvs ''source'')" by (simp add: cellShape_def)
  then obtain w where w: "joinIfArray (map_of kvs ''source'') = Inr w" "absentOrText w"
    using joinIfArray_textOrLines by blast
  from w(2) obtain h where "renderMarkdown w = Inr h" using renderMarkdown_absentOrText by blast
  moreover from w(2) obtain s where "asString (orEmpty w) = Inr s" using asString_orEmpty by blast
  ultimately show ?thesis using c w(1) by (simp add: previewCell_def bindE_def)
qed

lemma previewLoop_shape: "list_all cellShape cs \<Longrightarrow> \<exists>h. previewLoop cs shown html = Inr h"
proof (induction cs arbitrary: shown html)
  case Nil
  then show ?case by simp
next
  case (Cons c cs)
  from Cons.prems have sh: "cellShape c" "list_all cellShape cs" by simp_all
  from sh(1) obtain r where "previewCell c = Inr r" using previewCell_shape by blast
  with Cons.IH[OF sh(2)] show ?case by (cases r) auto
qed

lemma templateStr_textOrLines: "textOrLines v \<Longrightarrow> \<exists>s. templateStr v = Inr s"
proof (cases v)
  case None
  then show ?thesis by (simp add: templateStr_def)
next
  case (Some j)
  assume t: "textOrLines v"
  show ?thesis
  proof (cases j)
    case (JArr xs)
    with Some t have "list_all isText xs" by (simp add: textOrLines_def)
    then obtain s where "joinJS '','' xs = Inr s" using joinJS_texts by blast
    with Some JArr show ?thesis by (simp add: templateStr_def)
  qed (use Some t in \<open>auto simp: templateStr_def textOrLines_def\<close>)
qed

lemma imgTag_textOrLines: "textOrLines v \<Longrightarrow> \<exists>h. imgTag mime v = Inr h"
  using templateStr_textOrLines[of v] by (auto simp: imgTag_def bindE_def)

lemma dataPayload_shape:
  assumes "o' = JObj kvs" "dataShape (map_of kvs ''data'')"
    and "key \<in> {''image/png'', ''image/jpeg'', ''image/svg+xml'', ''text/plain''}"
  shows "\<exists>p. dataPayload o' key = Inr p \<and> textOrLines p"
proof (cases "map_of kvs ''data''")
  case None
  with assms(1) show ?thesis by (simp add: dataPayload_def bindE_def truthy_def textOrLines_def)
next
  case (Some d)
  show ?thesis
  proof (cases d)
    case (JObj dk)
    with Some assms show ?thesis
      by (auto simp: dataPayload_def bindE_def truthy_def dataShape_def)
  qed (use Some assms in \<open>auto simp: dataPayload_def bindE_def truthy_def dataShape_def textOrLines_def\<close>)
qed

lemma renderOutput_shape: "outputShape o' \<Longrightarrow> \<exists>h. renderOutput o' = Inr h"
proof -
  assume os: "outputShape o'"
  then obtain kvs where o: "o' = JObj kvs" by (cases o') (auto simp: outputShape_def)
  with os have ds: "dataShape (map_of kvs ''data'')" and tx: "textOrLines (map_of kvs ''text'')"
    by (simp_all add: outputShape_def)
  obtain png where png: "dataPayload o' ''image/png'' = Inr png" "textOrLines png"
    using dataPayload_shape[OF o ds, of "''image/png''"] by auto
  obtain jpeg where jpeg: "dataPayload o' ''image/jpeg'' = Inr jpeg" "textOrLines jpeg"
    using dataPayload_shape[OF o ds, of "''image/jpeg''"] by auto
  obtain svg where svg: "dataPayload o' ''image/svg+xml'' = Inr svg" "textOrLines svg"
    using dataPayload_shape[OF o ds, of "''image/svg+xml''"] by auto
  obtain plain where plain: "dataPayload o' ''text/plain'' = Inr plain" "textOrLines plain"
    using dataPayload_shape[OF o ds, of "''text/plain''"] by auto
  have texts: "\<And>v. textOrLines v \<Longrightarrow> truthy v \<Longrightarrow> \<exists>s. joinIfArray v = Inr (Some (JStr s))"
    using joinIfArray_textOrLines by blast
  show ?thesis
  proof (cases "truthy png")
    case True
    with png imgTag_textOrLines[OF png(2), of "''image/png''"] show ?thesis
      by (auto simp: renderOutput_def bindE_def)
  next
    case npng: False
    show ?thesis
    proof (cases "truthy jpeg")
      case True
      with npng png jpeg imgTag_textOrLines[OF jpeg(2), of "''image/jpeg''"] show ?thesis
        by (auto simp: renderOutput_def bindE_def)
    next
      case njpeg: False
      show ?thesis
      proof (cases "truthy svg")
        case True
        with npng njpeg png jpeg svg imgTag_textOrLines[OF svg(2), of "''image/svg+xml''"]
        show ?thesis by (auto simp: renderOutput_def bindE_def)
      next
        case nsvg: False
        show ?thesis
        proof (cases "truthy plain")
          case True
          with texts[OF plain(2)] obtain s where "joinIfArray plain = Inr (Some (JStr s))" by auto
          with True npng njpeg nsvg png jpeg svg plain show ?thesis
            by (simp add: renderOutput_def bindE_def asString_def)
        next
          case nplain: False
          show ?thesis
          proof (cases "truthy (map_of kvs ''text'')")
            case True
            with texts[OF tx] obtain s where "joinIfArray (map_of kvs ''text'') = Inr (Some (JStr s))"
              by auto
            with nplain npng njpeg nsvg png jpeg svg plain o show ?thesis
              by (simp add: renderOutput_def bindE_def asString_def)
          next
            case False
            with nplain npng njpeg nsvg png jpeg svg plain o show ?thesis
              by (simp add: renderOutput_def bindE_def)
          qed
        qed
      qed
    qed
  qed
qed

lemma renderOutputs_shape: "list_all outputShape os \<Longrightarrow> \<exists>h. renderOutputs os = Inr h"
proof (induction os)
  case Nil
  then show ?case by simp
next
  case (Cons x xs)
  from Cons.prems have sh: "outputShape x" "list_all outputShape xs" by simp_all
  from sh(1) obtain h where "renderOutput x = Inr h" using renderOutput_shape by blast
  moreover from Cons.IH[OF sh(2)] obtain r where "renderOutputs xs = Inr r" by blast
  ultimately show ?case by simp
qed

lemma forEachItems_outputs:
  "outputsShape v \<Longrightarrow> \<exists>os. forEachItems v = Inr os \<and> list_all outputShape os"
  by (auto simp: outputsShape_def forEachItems_def truthy_def split: option.splits json.splits)

lemma templateStr_absentOrText: "absentOrText v \<Longrightarrow> \<exists>s. templateStr v = Inr s"
  by (auto simp: absentOrText_def templateStr_def split: option.splits json.splits)

lemma fullCell_shape: "cellShape c \<Longrightarrow> \<exists>h. fullCell c = Inr h"
proof -
  assume cs: "cellShape c"
  then obtain kvs where c: "c = JObj kvs" by (cases c) (auto simp: cellShape_def)
  with cs have ty: "absentOrText (map_of kvs ''cell_type'')"
    and src: "textOrLines (map_of kvs ''source'')"
    and outs: "outputsShape (map_of kvs ''outputs'')"
    by (simp_all add: cellShape_def)
  from ty obtain cls where cls: "templateStr (map_of kvs ''cell_type'') = Inr cls"
    using templateStr_absentOrText by blast
  from src obtain w where w: "joinIfArray (map_of kvs ''source'') = Inr w" "absentOrText w"
    using joinIfArray_textOrLines by blast
  from w(2) obtain h where h: "renderMarkdown w = Inr h" using renderMarkdown_absentOrText by blast
  from w(2) obtain s where s: "asString (orEmpty w) = Inr s" using asString_orEmpty by blast
  from outs obtain os where os: "forEachItems (map_of kvs ''outputs'') = Inr os" "list_all outputShape os"
    using forEachItems_outputs by blast
  from os(2) obtain r where r: "renderOutputs os = Inr r" using renderOutputs_shape by blast
  show ?thesis using c cls w(1) h s os(1) r by (simp add: fullCell_def bindE_def)
qed

lemma fullLoop_shape: "list_all cellShape cs \<Longrightarrow> \<exists>h. fullLoop cs = Inr h"
proof (induction cs)
  case Nil
  then show ?case by simp
next
  case (Cons c cs)
  from Cons.prems have sh: "cellShape c" "list_all cellShape cs" by simp_all
  from sh(1) obtain h where "fullCell c = Inr h" using fullCell_shape by blast
  moreover from Cons.IH[OF sh(2)] obtain r where "fullLoop cs = Inr r" by blast
  ultimately show ?case by simp
qed

lemma notebook_cells:
  "notebookShape nb \<Longrightarrow> \<exists>v cs. getProp nb ''cells'' = Inr v \<and> forEachItems v = Inr cs
     \<and> previewCells nb = Inr cs \<and> list_all cellShape cs"
  by (cases nb)
     (auto simp: notebookShape_def forEachItems_def previewCells_def bindE_def truthy_def
           split: option.splits json.splits)

lemma missing_cells:
  "getProp nb ''cells'' = Inr None \<Longrightarrow> renderNotebookPreview nb = Inr [] \<and> renderFullNotebook nb = Inr []"
  by (simp add: renderNotebookPreview_def renderFullNotebook_def previewCells_def forEachItems_def bindE_def truthy_def)

lemma missing_outputs:
  "map_of kvs ''outputs'' = None \<Longrightarrow> fullCell (JObj kvs) = fullCell (JObj ((''outputs'', JArr []) # kvs))"
  by (simp add: fullCell_def forEachItems_def truthy_def bindE_simps)

lemma missing_source:
  "map_of kvs ''source'' = None \<or> map_of kvs ''source'' = Some JNull \<Longrightarrow>
   previewCell (JObj kvs) = previewCell (JObj ((''source'', JStr []) # kvs))
   \<and> fullCell (JObj kvs) = fullCell (JObj ((''source'', JStr []) # kvs))"
  by (auto simp: previewCell_def fullCell_def joinIfArray_def renderMarkdown_def orEmpty_def
                truthy_def asString_def bindE_simps)

text \<open>
  Claim C10, as stated: every notebook that \<open>JSON.parse\<close> accepts is rendered without a
  failure. It fails for a notebook in which a part is present but is not what the format
  says: a \<open>null\<close> in the place of a cell makes both renderers raise.
\<close>

theorem null_cell_raises:
  "renderNotebookPreview nullCellNotebook = Inl TypeError
   \<and> renderFullNotebook nullCellNotebook = Inl TypeError"
  by (simp add: nullCellNotebook_def render_defs)

text \<open>
  Claim C10, amended: a notebook of which parts are missing, but whose present parts
  have the shape of the format, is rendered by both renderers. A missing \<open>cells\<close> field
  gives the empty markup; a cell without \<open>outputs\<close> is rendered as with an empty list
  of outputs; a cell whose \<open>source\<close> is missing or \<open>null\<close> is rendered as with the
  empty text.
\<close>

theorem incomplete_notebook_renders:
  "(notebookShape nb \<longrightarrow>
      (\<exists>h. renderNotebookPreview nb = Inr h) \<and> (\<exists>h. renderFullNotebook nb = Inr h))
   \<and> (getProp nb' ''cells'' = Inr None \<longrightarrow>
        renderNotebookPreview nb' = Inr [] \<and> renderFullNotebook nb' = Inr [])
   \<and> (map_of kvs ''outputs'' = None \<longrightarrow>
        fullCell (JObj kvs) = fullCell (JObj ((''outputs'', JArr []) # kvs)))
   \<and> (map_of kvs' ''source'' = None \<or> map_of kvs' ''source'' = Some JNull \<longrightarrow>
        previewCell (JObj kvs') = previewCell (JObj ((''source'', JStr []) # kvs'))
        \<and> fullCell (JObj kvs') = fullCell (JObj ((''source'', JStr []) # kvs')))"
proof -
  have "(\<exists>h. renderNotebookPreview nb = Inr h) \<and> (\<exists>h. renderFullNotebook nb = Inr h)"
    if shape: "notebookShape nb"
  proof -
    from notebook_cells[OF shape] obtain v cs where
      a: "getProp nb ''cells'' = Inr v" "forEachItems v = Inr cs" "previewCells nb = Inr cs"
         "list_all cellShape cs" by blast
    from a(4) obtain h1 where "previewLoop cs 0 [] = Inr h1" using previewLoop_shape by blast
    moreover from a(4) obtain h2 where "fullLoop cs = Inr h2" using fullLoop_shape by blast
    ultimately show ?thesis
      using a by (simp add: renderNotebookPreview_def renderFullNotebook_def bindE_def)
  qed
  then show ?thesis
    using missing_cells[of nb'] missing_outputs[of kvs] missing_source[of kvs'] by blast
qed

theorem incomplete_notebook_renders_witness:
  "notebookShape incompleteNotebook
   \<and> (\<exists>h. renderNotebookPreview incompleteNotebook = Inr h)
   \<and> (\<exists>h. renderFullNotebook incompleteNotebook = Inr h)
   \<and> getProp (JObj []) ''cells'' = Inr None
   \<and> renderNotebookPreview (JObj []) = Inr [] \<and> renderFullNotebook (JObj []) = Inr []
   \<and> map_of [(''cell_type'', JStr ''code'')] ''outputs'' = None
   \<and> fullCell (JObj [(''cell_type'', JStr ''code'')])
       = fullCell (JObj [(''outputs'', JArr []), (''cell_type'', JStr ''code'')])
   \<and> map_of [(''cell_type'', JStr ''markdown''), (''source'', JNull)] ''source'' = Some JNull
   \<and> previewCell (JObj [(''cell_type'', JStr ''markdown''), (''source'', JNull)])
       = previewCell (JObj [(''source'', JStr []), (''cell_type'', JStr ''markdown''), (''source'', JNull)])"
proof -
  have shape: "notebookShape incompleteNotebook"
    by (simp add: incompleteNotebook_def notebookShape_def cellShape_def absentOrText_def
                  textOrLines_def outputsShape_def)
  have a: "getProp (JObj []) ''cells'' = Inr None" by simp
  have b: "map_of [(''cell_type'', JStr ''code'')] ''outputs'' = None" by simp
  have c: "map_of [(''cell_type'', JStr ''markdown''), (''source'', JNull)] ''source'' = Some JNull"
    by simp
  from incomplete_notebook_renders
         [of incompleteNotebook "JObj []" "[(''cell_type'', JStr ''code'')]"
             "[(''cell_type'', JStr ''markdown''), (''source'', JNull)]"]
       shape a b c
  show ?thesis by blast
qed

section \<open>Properties of the path normaliser and the tree builder\<close>

lemma collapseRuns_in_run:
  "collapseRuns True cs = collapseRuns False (dropWhile (\<lambda>c. c = CHR 0x5C) cs)"
  by (induction cs) auto

lemma collapseRuns_no_backslash: "CHR 0x5C \<notin> set s \<Longrightarrow> collapseRuns False s = s"
  by (induction s) auto

lemma collapseRuns_result: "CHR 0x5C \<notin> set (collapseRuns b s)"
  by (induction s arbitrary: b) auto

lemma replaceAll_backslashes:
  "replaceAll reBackslash q (replaceAll reBackslashRun p s) = collapseRuns False s"
proof (induction "length s" arbitrary: s p q rule: less_induct)
  case less
  show ?case
  proof (cases s)
    case Nil
    then show ?thesis by (simp add: reBackslash_def reBackslashRun_def)
  next
    case (Cons c cs)
    show ?thesis
    proof (cases "c = CHR 0x5C")
      case False
      then have "reBackslashRun p (c # cs) = None" "reBackslash q (c # x) = None" for x
        by (simp_all add: reBackslashRun_def reBackslash_def)
      with False Cons less[of cs] show ?thesis by simp
    next
      case True
      let ?run = "takeWhile (\<lambda>c. c = CHR 0x5C) cs"
      let ?rest = "dropWhile (\<lambda>c. c = CHR 0x5C) cs"
      have single: "reBackslash q (CHR 0x5C # x) = Some (''/'', 1)" for x q
        by (simp add: reBackslash_def)
      have nomatch: "reBackslash q (CHR ''/'' # x) = None" for x q
        by (simp add: reBackslash_def)
      have rest_le: "length ?rest \<le> length cs" by (simp add: length_dropWhile_le)
      show ?thesis
      proof (cases "?run = []")
        case True
        then have "?rest = cs" by (cases cs) (auto split: if_splits)
        moreover from True \<open>c = CHR 0x5C\<close> have "reBackslashRun p (c # cs) = None"
          by (simp add: reBackslashRun_def)
        ultimately show ?thesis
          using Cons \<open>c = CHR 0x5C\<close> single less[of cs] collapseRuns_in_run[of cs] by simp
      next
        case False
        then have "length ?run \<ge> 1"
          by (cases ?run) simp_all
        then have m: "reBackslashRun p (c # cs) = Some (''/'', Suc (length ?run))"
          using \<open>c = CHR 0x5C\<close> by (simp add: reBackslashRun_def)
        have d: "drop (Suc (length ?run)) (c # cs) = ?rest"
          by (simp add: dropWhile_eq_drop)
        have "length ?rest < length s" using rest_le Cons by simp
        from less[OF this] m d nomatch Cons \<open>c = CHR 0x5C\<close> collapseRuns_in_run[of cs]
        show ?thesis by simp
      qed
    qed
  qed
qed

lemma normalizeFilePath_cases:
  "normalizeFilePath f =
     (if firstHint (webkitRelativePath f) (fullPath f) = [] then name f
      else collapseRuns False (firstHint (webkitRelativePath f) (fullPath f)))"
  by (simp add: normalizeFilePath_def replaceAll_backslashes)

text \<open>
  Claim C3, as stated: the canonical path comes from the traversal-derived hint first,
  then from the picker-derived one, then from the bare name; with both hints present
  the traversal-derived one is used. It fails: \<open>normalizeFilePath\<close> reads
  \<open>webkitRelativePath\<close>, the hint of the directory picker, before \<open>fullPath\<close>, the
  hint set during traversal.
\<close>

theorem both_hints_counterexample:
  "normalizeFilePath \<lparr>name = ''x.py'', webkitRelativePath = Some ''picked/x.py'',
                       fullPath = Some ''dropped/x.py''\<rparr> = ''picked/x.py''
   \<and> normalizeFilePath \<lparr>name = ''x.py'', webkitRelativePath = Some ''picked/x.py'',
                         fullPath = Some ''dropped/x.py''\<rparr> \<noteq> ''dropped/x.py''"
  by (simp add: normalizeFilePath_def firstHint_def reBackslash_def reBackslashRun_def)

text \<open>
  Claim C3, amended: the canonical path comes from the picker-derived hint when that
  is a non-empty string, whatever the traversal-derived hint is; else from the
  traversal-derived hint when that is a non-empty string; else it is the bare name. A
  hint is not used as it is: every run of backslashes in it becomes one forward slash,
  so a hint without a backslash is unchanged and the result never holds one.
\<close>

theorem picker_hint_used_first:
  "(webkitRelativePath f = Some p \<and> p \<noteq> [] \<longrightarrow> normalizeFilePath f = collapseRuns False p)
   \<and> ((webkitRelativePath f = None \<or> webkitRelativePath f = Some [])
        \<and> fullPath f = Some q \<and> q \<noteq> [] \<longrightarrow> normalizeFilePath f = collapseRuns False q)
   \<and> ((webkitRelativePath f = None \<or> webkitRelativePath f = Some [])
        \<and> (fullPath f = None \<or> fullPath f = Some []) \<longrightarrow> normalizeFilePath f = name f)
   \<and> (CHR 0x5C \<notin> set h \<longrightarrow> collapseRuns False h = h)
   \<and> CHR 0x5C \<notin> set (collapseRuns False h)"
proof -
  have a: "normalizeFilePath f = collapseRuns False p"
    if "webkitRelativePath f = Some p" "p \<noteq> []"
    using that by (simp add: normalizeFilePath_cases firstHint_def)
  have b: "normalizeFilePath f = collapseRuns False q"
    if "webkitRelativePath f = None \<or> webkitRelativePath f = Some []" "fullPath f = Some q" "q \<noteq> []"
    using that by (auto simp: normalizeFilePath_cases firstHint_def)
  have c: "normalizeFilePath f = name f"
    if "webkitRelativePath f = None \<or> webkitRelativePath f = Some []"
       "fullPath f = None \<or> fullPath f = Some []"
    using that by (auto simp: normalizeFilePath_cases firstHint_def)
  from a b c collapseRuns_no_backslash[of h] collapseRuns_result[of False h]
  show ?thesis by blast
qed

theorem picker_hint_used_first_witness:
  "normalizeFilePath
     (picked ''webkit.ipynb'' (''folder1'' @ [CHR 0x5C] @ ''subfolder'' @ [CHR 0x5C] @ ''webkit.ipynb''))
     = ''folder1/subfolder/webkit.ipynb''
   \<and> normalizeFilePath
       (dropped ''double.ipynb''
          (''C:'' @ [CHR 0x5C, CHR 0x5C] @ ''Users'' @ [CHR 0x5C, CHR 0x5C] @ ''double.ipynb''))
       = ''C:/Users/double.ipynb''
   \<and> normalizeFilePath \<lparr>name = ''z.py'', webkitRelativePath = Some [], fullPath = None\<rparr> = ''z.py''
   \<and> collapseRuns False ''a/b.py'' = ''a/b.py''"
proof -
  let ?p = "''folder1'' @ [CHR 0x5C] @ ''subfolder'' @ [CHR 0x5C] @ ''webkit.ipynb''"
  let ?q = "''C:'' @ [CHR 0x5C, CHR 0x5C] @ ''Users'' @ [CHR 0x5C, CHR 0x5C] @ ''double.ipynb''"
  have "normalizeFilePath (picked ''webkit.ipynb'' ?p) = collapseRuns False ?p"
    using picker_hint_used_first[of "picked ''webkit.ipynb'' ?p" ?p ?q "''a/b.py''"]
    by (simp add: picked_def)
  moreover have "normalizeFilePath (dropped ''double.ipynb'' ?q) = collapseRuns False ?q"
    using picker_hint_used_first[of "dropped ''double.ipynb'' ?q" ?p ?q "''a/b.py''"]
    by (simp add: dropped_def)
  moreover have "normalizeFilePath \<lparr>name = ''z.py'', webkitRelativePath = Some [], fullPath = None\<rparr>
                   = ''z.py''"
    using picker_hint_used_first
            [of "\<lparr>name = ''z.py'', webkitRelativePath = Some [], fullPath = None\<rparr>" ?p ?q "''a/b.py''"]
    by simp
  moreover have "collapseRuns False ''a/b.py'' = ''a/b.py''"
    using picker_hint_used_first[of "picked ''webkit.ipynb'' ?p" ?p ?q "''a/b.py''"]
    by simp
  ultimately show ?thesis by simp
qed

lemmas tree_defs = buildTree_def normalizeFilePath_def firstHint_def reBackslash_def
  reBackslashRun_def pathParts_def getOwn_def setOwn_def dropped_def picked_def Let_def
  readProp_def objectMembers_def arrayMembers_def isIndex_def isDigit_def

text \<open>
  The scenario of the specification: \<open>a/b/x.ipynb\<close>, \<open>a/y.py\<close> and \<open>z.py\<close> give a
  root with the folder \<open>a\<close> (which holds the folder \<open>b\<close> with one notebook, and one
  script) and one script of its own.
\<close>

lemma buildTree_scenario:
  "buildTree [dropped ''x.ipynb'' ''a/b/x.ipynb'', dropped ''y.py'' ''a/y.py'',
              dropped ''z.py'' ''z.py'']
     = Inr (Obj [(''a'', Obj [(''b'', Obj [(''files'', Arr [dropped ''x.ipynb'' ''a/b/x.ipynb''] [])]),
                              (''files'', Arr [dropped ''y.py'' ''a/y.py''] [])]),
                 (''files'', Arr [dropped ''z.py'' ''z.py''] [])])"
  by (simp add: tree_defs)

text \<open>
  Claim C4: a folder named \<open>files\<close> is kept as a subtree of its own and corrupts
  nothing: no \<open>files\<close> entry holds both subfolders and files, and every file stays
  reachable. The builder keeps the subfolders and the file list of a node under one set
  of keys and does nothing about a folder whose name is the reserved key. With the
  folder seen first, \<open>files\<close> of the root is an object and pushing the root's own file
  onto it raises; with the root's file seen first, the folder's content is attached to
  the root's list of files.
\<close>

theorem files_folder_then_root_file_raises:
  "buildTree [dropped ''x.py'' ''files/x.py'', dropped ''y.py'' ''y.py''] = Inl TypeError
   \<and> buildTree [dropped ''y.py'' ''y.py'', dropped ''x.py'' ''files/sub/x.py''] =
       Inr (Obj [(''files'',
                  Arr [dropped ''y.py'' ''y.py'']
                      [(''sub'', Obj [(''files'', Arr [dropped ''x.py'' ''files/sub/x.py''] [])])])])"
  by (simp add: tree_defs)

subsection \<open>Segments of a canonical path\<close>

lemma split_not_empty: "split sep s \<noteq> []"
  by (induction s) (auto split: list.splits)

lemma split_chars: "set (concat (split sep s)) = set s - {sep}"
proof (induction s)
  case Nil
  then show ?case by simp
next
  case (Cons a s)
  show ?case
  proof (cases "a = sep")
    case True
    with Cons show ?thesis by auto
  next
    case False
    obtain x xs where sp: "split sep s = x # xs"
      using split_not_empty[of sep s] by (cases "split sep s") auto
    with False have "set (concat (split sep (a # s))) = insert a (set (concat (split sep s)))"
      by simp
    with Cons False show ?thesis by auto
  qed
qed

lemma split_no_separator: "sep \<notin> set s \<Longrightarrow> split sep s = [s]"
  by (induction s) auto

lemma pathParts_empty: "pathParts s = [] \<longleftrightarrow> set s \<subseteq> {CHR ''/''}"
proof -
  have "pathParts s = [] \<longleftrightarrow> (\<forall>x\<in>set (split (CHR ''/'') s). x = [])"
    by (simp add: pathParts_def filter_empty_conv)
  also have "\<dots> \<longleftrightarrow> set (concat (split (CHR ''/'') s)) = {}"
    by auto
  also have "\<dots> \<longleftrightarrow> set s \<subseteq> {CHR ''/''}"
    unfolding split_chars by auto
  finally show ?thesis .
qed

lemma pathParts_single: "s \<noteq> [] \<Longrightarrow> CHR ''/'' \<notin> set s \<Longrightarrow> pathParts s = [s]"
  by (simp add: pathParts_def split_no_separator)

lemma collapseRuns_keeps: "c \<in> set s \<Longrightarrow> c \<noteq> CHR 0x5C \<Longrightarrow> c \<in> set (collapseRuns b s)"
  by (induction s arbitrary: b) auto

lemma collapseRuns_separators:
  "set s \<subseteq> {CHR ''/'', CHR 0x5C} \<Longrightarrow> set (collapseRuns b s) \<subseteq> {CHR ''/''}"
  by (induction s arbitrary: b) auto

lemma map_of_assign: "map_of (assign k v kvs) k' = (if k' = k then Some v else map_of kvs k')"
  by (induction kvs) auto

lemma set_assign: "x \<in> set (assign k v kvs) \<Longrightarrow> x = (k, v) \<or> x \<in> set kvs"
  by (induction kvs) (auto split: if_splits)

lemma getOwn_setOwn: "getOwn (setOwn n k v) k' = (if k' = k then Some v else getOwn n k')"
  by (cases n) (simp_all add: getOwn_def setOwn_def map_of_assign)

lemma readProp_folder:
  "folderTree n \<Longrightarrow> p \<notin> set objectMembers \<Longrightarrow> readProp n p = Inr (getOwn n p)"
  by (cases n) (simp_all add: readProp_def split: option.splits)

lemma folderTree_getOwn:
  assumes "folderTree n" "getOwn n k = Some v"
  shows "if k = ''files'' then isFileList v else folderTree v"
proof -
  from assms(1) obtain kvs where n: "n = Obj kvs" by (cases n) auto
  with assms(2) have "(k, v) \<in> set kvs" by (auto simp: getOwn_def dest: map_of_SomeD)
  moreover from assms(1) n
  have "\<forall>x\<in>set kvs. case x of (k, v) \<Rightarrow> if k = ''files'' then isFileList v else folderTree v"
    by (simp add: list_all_iff)
  ultimately show ?thesis by fastforce
qed

lemma folderTree_setOwn:
  assumes "folderTree n" "if k = ''files'' then isFileList v else folderTree v"
  shows "folderTree (setOwn n k v)"
proof -
  from assms(1) obtain kvs where n: "n = Obj kvs" by (cases n) auto
  with assms(1)
  have old: "\<forall>x\<in>set kvs. case x of (k, v) \<Rightarrow> if k = ''files'' then isFileList v else folderTree v"
    by (simp add: list_all_iff)
  have "case x of (k, v) \<Rightarrow> if k = ''files'' then isFileList v else folderTree v"
    if "x \<in> set (assign k v kvs)" for x
    using set_assign[OF that] old assms(2) by auto
  with n show ?thesis by (simp add: setOwn_def list_all_iff)
qed

lemma filesAt_empty: "filesAt (Obj []) d = []"
  by (cases d) (simp_all add: getOwn_def)

lemma place_folderTree:
  "folderTree n \<Longrightarrow> parts \<noteq> [] \<Longrightarrow> list_all folderName (butlast parts) \<Longrightarrow>
   \<exists>n'. place f parts n = Inr n' \<and> folderTree n'
      \<and> (\<forall>d. ''files'' \<notin> set d \<longrightarrow>
            filesAt n' d = (if d = butlast parts then filesAt n d @ [f] else filesAt n d))"
proof (induction parts arbitrary: n)
  case Nil
  then show ?case by simp
next
  case (Cons part rest)
  show ?case
  proof (cases rest)
    case Nil
    show ?thesis
    proof (cases "getOwn n ''files''")
      case None
      let ?n' = "setOwn n ''files'' (Arr [f] [])"
      have "place f [part] n = Inr ?n'" using None by simp
      moreover have "folderTree ?n'" using Cons.prems(1) by (simp add: folderTree_setOwn)
      moreover have "filesAt ?n' d = (if d = [] then filesAt n d @ [f] else filesAt n d)"
        if "''files'' \<notin> set d" for d
        using that None by (cases d) (auto simp: getOwn_setOwn)
      ultimately show ?thesis using Nil by auto
    next
      case (Some v)
      with folderTree_getOwn[OF Cons.prems(1) Some] obtain fs ps where v: "v = Arr fs ps"
        by (cases v) auto
      let ?n' = "setOwn n ''files'' (Arr (fs @ [f]) ps)"
      have "place f [part] n = Inr ?n'" using Some v by simp
      moreover have "folderTree ?n'" using Cons.prems(1) by (simp add: folderTree_setOwn)
      moreover have "filesAt ?n' d = (if d = [] then filesAt n d @ [f] else filesAt n d)"
        if "''files'' \<notin> set d" for d
        using that Some v by (cases d) (auto simp: getOwn_setOwn)
      ultimately show ?thesis using Nil by auto
    qed
  next
    case (Cons part' rest')
    with Cons.prems have pn: "folderName part" and rf: "list_all folderName (butlast rest)"
      and rne: "rest \<noteq> []" by auto
    from pn have pf: "part \<noteq> ''files''" and po: "part \<notin> set objectMembers"
      by (simp_all add: folderName_def)
    define child where "child = (case getOwn n part of None \<Rightarrow> Obj [] | Some c \<Rightarrow> c)"
    have ch: "folderTree child"
      using folderTree_getOwn[OF Cons.prems(1), of part] pf
      by (auto simp: child_def split: option.splits)
    from Cons.IH[OF ch rne rf] obtain c' where
      c': "place f rest child = Inr c'" "folderTree c'"
        "\<And>d. ''files'' \<notin> set d \<Longrightarrow>
           filesAt c' d = (if d = butlast rest then filesAt child d @ [f] else filesAt child d)"
      by blast
    let ?n' = "setOwn n part c'"
    have pl: "place f (part # rest) n = Inr ?n'"
      using c'(1) Cons readProp_folder[OF Cons.prems(1) po] by (simp add: child_def)
    have ft: "folderTree ?n'"
      using Cons.prems(1) c'(2) pf by (simp add: folderTree_setOwn)
    have old: "filesAt n (part # ps) = filesAt child ps" for ps
      by (simp add: child_def filesAt_empty split: option.splits)
    have "filesAt ?n' d = (if d = butlast (part # rest) then filesAt n d @ [f] else filesAt n d)"
      if nf: "''files'' \<notin> set d" for d
    proof (cases d)
      case Nil
      then show ?thesis using pf rne by (simp add: getOwn_setOwn)
    next
      case (Cons p ps)
      show ?thesis
      proof (cases "p = part")
        case True
        have "filesAt ?n' d = filesAt c' ps"
          using Cons True by (simp add: getOwn_setOwn)
        also have "\<dots> = (if ps = butlast rest then filesAt child ps @ [f] else filesAt child ps)"
          using c'(3)[of ps] nf Cons by simp
        also have "\<dots> = (if d = butlast (part # rest) then filesAt n d @ [f] else filesAt n d)"
          unfolding Cons True old using rne by simp
        finally show ?thesis .
      next
        case False
        with Cons rne show ?thesis by (simp add: getOwn_setOwn)
      qed
    qed
    with pl ft show ?thesis by blast
  qed
qed

text \<open>
  Claim C5, as stated: canonicalisation leaves at least one segment; a hint made of
  separators only is read as the bare file name, and the file is placed at the root.
  The fallback to the name is taken for an empty hint only: the hint \<open>/\<close> stays \<open>/\<close>,
  no segment is left after the empty ones are removed, the loop over the segments never
  runs and the file is in no list of the tree.
\<close>

theorem separators_only_hint_dropped:
  "normalizeFilePath (picked ''x.py'' ''/'') = ''/''
   \<and> pathParts (normalizeFilePath (picked ''x.py'' ''/'')) = []
   \<and> buildTree [picked ''x.py'' ''/''] = Inr (Obj [])"
  by (simp add: tree_defs)

text \<open>
  Claim C5, amended. Let the hint of a file be its picker-derived path or else its
  traversal-derived path, and empty when it has neither. With an empty hint the
  canonical path is the bare file name; when that name is not empty and holds no
  slash, it is the only segment. A hint that holds a character other than a slash and
  a backslash leaves at least one segment. A hint that is not empty and holds slashes
  and backslashes only is not replaced by the name: it leaves no segment, and the
  builder passes the file over. A file with exactly one segment is added at the end of
  the list of files of the root, in every tree of folders and lists of files.
\<close>

theorem hint_segments:
  "(firstHint (webkitRelativePath f) (fullPath f) = [] \<longrightarrow> normalizeFilePath f = name f)
   \<and> (firstHint (webkitRelativePath f) (fullPath f) = [] \<and> name f \<noteq> [] \<and> CHR ''/'' \<notin> set (name f)
        \<longrightarrow> pathParts (normalizeFilePath f) = [name f])
   \<and> ((\<exists>c\<in>set (firstHint (webkitRelativePath f) (fullPath f)). c \<noteq> CHR ''/'' \<and> c \<noteq> CHR 0x5C)
        \<longrightarrow> pathParts (normalizeFilePath f) \<noteq> [])
   \<and> (firstHint (webkitRelativePath f) (fullPath f) \<noteq> []
        \<and> set (firstHint (webkitRelativePath f) (fullPath f)) \<subseteq> {CHR ''/'', CHR 0x5C}
        \<longrightarrow> pathParts (normalizeFilePath f) = [] \<and> buildLoop (f # fs) tree = buildLoop fs tree)
   \<and> (pathParts (normalizeFilePath f) = [p] \<and> folderTree tree
        \<longrightarrow> (\<exists>tree'. buildLoop [f] tree = Inr tree'
                     \<and> filesAt tree' [] = filesAt tree [] @ [stored f]))"
proof -
  let ?h = "firstHint (webkitRelativePath f) (fullPath f)"
  have a: "normalizeFilePath f = name f" if "?h = []"
    using that by (simp add: normalizeFilePath_cases)
  have b: "pathParts (normalizeFilePath f) = [name f]"
    if "?h = []" "name f \<noteq> []" "CHR ''/'' \<notin> set (name f)"
    using that by (simp add: normalizeFilePath_cases pathParts_single)
  have c: "pathParts (normalizeFilePath f) \<noteq> []"
    if "\<exists>c\<in>set ?h. c \<noteq> CHR ''/'' \<and> c \<noteq> CHR 0x5C"
  proof -
    from that obtain c where c: "c \<in> set ?h" "c \<noteq> CHR ''/''" "c \<noteq> CHR 0x5C" by blast
    then have ne: "?h \<noteq> []" by auto
    from c have "c \<in> set (collapseRuns False ?h)" by (simp add: collapseRuns_keeps)
    with ne have "c \<in> set (normalizeFilePath f)" by (simp add: normalizeFilePath_cases)
    with c(2) show ?thesis by (auto simp: pathParts_empty)
  qed
  have d: "pathParts (normalizeFilePath f) = [] \<and> buildLoop (f # fs) tree = buildLoop fs tree"
    if "?h \<noteq> []" "set ?h \<subseteq> {CHR ''/'', CHR 0x5C}"
  proof -
    from that have "set (normalizeFilePath f) \<subseteq> {CHR ''/''}"
      by (simp add: normalizeFilePath_cases collapseRuns_separators)
    then have "pathParts (normalizeFilePath f) = []" by (simp add: pathParts_empty)
    then show ?thesis by (simp add: Let_def)
  qed
  have e: "\<exists>tree'. buildLoop [f] tree = Inr tree' \<and> filesAt tree' [] = filesAt tree [] @ [stored f]"
    if "pathParts (normalizeFilePath f) = [p]" "folderTree tree"
  proof -
    have ne: "[p] \<noteq> []" and fn: "list_all folderName (butlast [p])" by simp_all
    from place_folderTree[OF that(2) ne fn, of "stored f"] obtain t' where
      t: "place (stored f) [p] tree = Inr t'" and
      fa: "\<forall>d. ''files'' \<notin> set d \<longrightarrow>
             filesAt t' d = (if d = butlast [p] then filesAt tree d @ [stored f] else filesAt tree d)"
      by blast
    have at_root: "filesAt t' [] = filesAt tree [] @ [stored f]"
      using fa[rule_format, of "[]"] by simp
    have bl: "buildLoop [f] tree =
                (case place (stored f) (pathParts (normalizeFilePath f)) tree of
                   Inl e \<Rightarrow> Inl e | Inr t \<Rightarrow> Inr t)"
      by (simp add: stored_def Let_def split: sum.splits)
    have "buildLoop [f] tree = Inr t'"
      unfolding bl that(1) t by simp
    with at_root show ?thesis by blast
  qed
  from a b c d e show ?thesis by blast
qed

theorem hint_segments_witness:
  "normalizeFilePath \<lparr>name = ''z.py'', webkitRelativePath = Some [], fullPath = None\<rparr> = ''z.py''
   \<and> pathParts (normalizeFilePath \<lparr>name = ''z.py'', webkitRelativePath = Some [], fullPath = None\<rparr>)
       = [''z.py'']
   \<and> pathParts (normalizeFilePath (dropped ''x.py'' ''/a//x.py'')) \<noteq> []
   \<and> pathParts (normalizeFilePath (picked ''x.py'' [CHR 0x5C, CHR ''/''])) = []
   \<and> buildLoop [picked ''x.py'' [CHR 0x5C, CHR ''/''], dropped ''y.py'' ''y.py''] (Obj [])
       = buildLoop [dropped ''y.py'' ''y.py''] (Obj [])
   \<and> (\<exists>tree'. buildLoop [dropped ''y.py'' ''y.py''] (Obj [(''files'', Arr [dropped ''z.py'' ''z.py''] [])])
                 = Inr tree'
              \<and> filesAt tree' [] = [dropped ''z.py'' ''z.py'', stored (dropped ''y.py'' ''y.py'')])"
proof -
  let ?z = "\<lparr>name = ''z.py'', webkitRelativePath = Some [], fullPath = None\<rparr>"
  let ?x = "dropped ''x.py'' ''/a//x.py''"
  let ?s = "picked ''x.py'' [CHR 0x5C, CHR ''/'']"
  let ?y = "dropped ''y.py'' ''y.py''"
  let ?t = "Obj [(''files'', Arr [dropped ''z.py'' ''z.py''] [])]"
  note empty_hint = hint_segments[of ?z "[]" "Obj []" "''z.py''"]
  note proper_hint = hint_segments[of ?x "[]" "Obj []" "''x.py''"]
  note separators = hint_segments[of ?s "[?y]" "Obj []" "''x.py''"]
  note one_segment = hint_segments[of ?y "[]" ?t "''y.py''"]
  have "normalizeFilePath ?z = ''z.py''"
    using empty_hint[THEN conjunct1] by (simp add: firstHint_def)
  moreover have "pathParts (normalizeFilePath ?z) = [''z.py'']"
    using empty_hint[THEN conjunct2, THEN conjunct1] by (simp add: firstHint_def)
  moreover have "pathParts (normalizeFilePath ?x) \<noteq> []"
    using proper_hint[THEN conjunct2, THEN conjunct2, THEN conjunct1]
    by (simp add: firstHint_def dropped_def)
  moreover have "pathParts (normalizeFilePath ?s) = []
      \<and> buildLoop [?s, ?y] (Obj []) = buildLoop [?y] (Obj [])"
  proof -
    have "firstHint (webkitRelativePath ?s) (fullPath ?s) \<noteq> []
        \<and> set (firstHint (webkitRelativePath ?s) (fullPath ?s)) \<subseteq> {CHR ''/'', CHR 0x5C}"
      by (simp add: firstHint_def picked_def)
    with separators[THEN conjunct2, THEN conjunct2, THEN conjunct2, THEN conjunct1]
    show ?thesis by blast
  qed
  moreover have "\<exists>tree'. buildLoop [?y] ?t = Inr tree'
      \<and> filesAt tree' [] = [dropped ''z.py'' ''z.py'', stored ?y]"
  proof -
    have "pathParts (normalizeFilePath ?y) = [''y.py''] \<and> folderTree ?t"
      by (simp add: tree_defs)
    with one_segment[THEN conjunct2, THEN conjunct2, THEN conjunct2, THEN conjunct2]
    have "\<exists>tree'. buildLoop [?y] ?t = Inr tree' \<and> filesAt tree' [] = filesAt ?t [] @ [stored ?y]"
      by blast
    moreover have "filesAt ?t [] = [dropped ''z.py'' ''z.py'']" by (simp add: getOwn_def)
    ultimately show ?thesis by simp
  qed
  ultimately show ?thesis by blast
qed

lemma buildLoop_folderTree:
  "folderTree tree \<Longrightarrow> list_all placeable fs \<Longrightarrow>
   \<exists>t'. buildLoop fs tree = Inr t' \<and> folderTree t'
      \<and> (\<forall>d. ''files'' \<notin> set d \<longrightarrow>
            filesAt t' d = filesAt tree d @ map stored (filter (\<lambda>f. folderOf f = d) fs))"
proof (induction fs arbitrary: tree)
  case Nil
  then show ?case by simp
next
  case (Cons f fs)
  from Cons.prems(2) have pf: "placeable f" and rest: "list_all placeable fs" by simp_all
  from pf have parts: "pathParts (normalizeFilePath f) \<noteq> []"
      "list_all folderName (butlast (pathParts (normalizeFilePath f)))"
    by (simp_all add: placeable_def folderOf_def)
  from place_folderTree[OF Cons.prems(1) parts, of "stored f"] obtain t1 where
    t1: "place (stored f) (pathParts (normalizeFilePath f)) tree = Inr t1" "folderTree t1"
      "\<And>d. ''files'' \<notin> set d \<Longrightarrow>
         filesAt t1 d = (if d = folderOf f then filesAt tree d @ [stored f] else filesAt tree d)"
    by (auto simp: folderOf_def)
  from Cons.IH[OF t1(2) rest] obtain t' where
    t': "buildLoop fs t1 = Inr t'" "folderTree t'"
      "\<And>d. ''files'' \<notin> set d \<Longrightarrow>
         filesAt t' d = filesAt t1 d @ map stored (filter (\<lambda>f. folderOf f = d) fs)"
    by blast
  have "buildLoop (f # fs) tree = Inr t'"
    using t1(1) t'(1) by (simp add: stored_def Let_def)
  moreover have "filesAt t' d = filesAt tree d @ map stored (filter (\<lambda>f. folderOf f = d) (f # fs))"
    if "''files'' \<notin> set d" for d
    using t'(3)[OF that] t1(3)[OF that] by auto
  ultimately show ?case using t'(2) by blast
qed

text \<open>
  Where no path is without a segment and no folder is named \<open>files\<close> or like a member
  that every object inherits, the tree is built, and the list of files of every folder
  holds the files of the input that belong to it, as stored, in the order of the input
  and as often as they occur there.
\<close>

lemma buildTree_files_of_folder:
  assumes "list_all placeable fs"
  shows "\<exists>tree. buildTree fs = Inr tree \<and> folderTree tree
           \<and> (\<forall>d. ''files'' \<notin> set d \<longrightarrow>
                 filesAt tree d = map stored (filter (\<lambda>f. folderOf f = d) fs))"
proof -
  have "folderTree (Obj [])" by simp
  from buildLoop_folderTree[OF this assms] show ?thesis
    by (auto simp: buildTree_def filesAt_empty)
qed

text \<open>
  Claim C6: for every input, walking the tree along the segments of a file's canonical
  path reaches a \<open>files\<close> list that holds the file once per occurrence in the input.
  That is so for every input in which no path is without a segment and no folder is
  named \<open>files\<close> or like an inherited member, as the lemma above says. It fails for a
  folder named \<open>files\<close>: a project with such a folder beside a notebook yields no tree
  at all.
\<close>

theorem nested_files_folder_raises:
  "buildTree [dropped ''x.ipynb'' ''proj/files/data/x.ipynb'', dropped ''y.ipynb'' ''proj/y.ipynb'']
     = Inl TypeError"
  by (simp add: tree_defs)

section \<open>Properties of the folder view and the navigator\<close>

lemma renderFolderView_raises:
  "renderFolderView showPy n = Inl e \<longleftrightarrow> e = TypeError \<and> (\<exists>kvs. getOwn n ''files'' = Some (Obj kvs))"
  by (auto simp: renderFolderView_def Let_def split: option.splits node.splits)

lemma renderFolderView_folderTree: "folderTree n \<Longrightarrow> \<exists>cards. renderFolderView showPy n = Inr cards"
proof -
  assume ft: "folderTree n"
  show ?thesis
  proof (cases "renderFolderView showPy n")
    case (Inl e)
    then obtain kvs where "getOwn n ''files'' = Some (Obj kvs)"
      by (auto simp: renderFolderView_raises)
    from folderTree_getOwn[OF ft this] show ?thesis by simp
  next
    case (Inr cards)
    then show ?thesis by simp
  qed
qed

lemma resolveLoop_found: "walk node ps = Inr (Some n) \<Longrightarrow> resolveLoop node ps = Inr (Found n)"
  by (induction node ps rule: walk.induct) (auto split: sum.splits option.splits)

lemma resolveLoop_missing:
  "walk node ps = Inr None \<Longrightarrow> \<exists>p\<in>set ps. resolveLoop node ps = Inr (NotFound p)"
  by (induction node ps rule: walk.induct) (auto split: sum.splits option.splits)

lemma resolveLoop_outside: "walk node ps = Inl e \<Longrightarrow> resolveLoop node ps = Inl e"
  by (induction node ps rule: walk.induct) (auto split: sum.splits option.splits)

text \<open>
  What the handler does to the state when the folder it ends in can be shown: the path
  is cut to its first \<open>i + 1\<close> segments; when these resolve, the folder they lead to is
  shown; when one of them is not found, the path is reset to the root, one diagnostic
  is recorded and the root is shown.
\<close>

lemma breadcrumb_jump_state:
  assumes "path = take (i + 1) (currentPath st)"
  shows "walk (folderStructure st) path = Inr (Some n)
           \<Longrightarrow> renderFolderView (showPyFiles st) n = Inr cards
           \<Longrightarrow> jumpToBreadcrumb st i = Inr (st\<lparr>currentPath := path, shownCards := cards\<rparr>)"
    and "walk (folderStructure st) path = Inr None
           \<Longrightarrow> renderFolderView (showPyFiles st) (folderStructure st) = Inr cards
           \<Longrightarrow> \<exists>p\<in>set path. jumpToBreadcrumb st i =
                  Inr (st\<lparr>currentPath := [], warnings := warnings st @ [(p, path)], shownCards := cards\<rparr>)"
proof -
  show "jumpToBreadcrumb st i = Inr (st\<lparr>currentPath := path, shownCards := cards\<rparr>)"
    if "walk (folderStructure st) path = Inr (Some n)"
       "renderFolderView (showPyFiles st) n = Inr cards"
    using resolveLoop_found[OF that(1)] that(2) assms
    by (simp add: jumpToBreadcrumb_def showNode_def Let_def)
  show "\<exists>p\<in>set path. jumpToBreadcrumb st i =
          Inr (st\<lparr>currentPath := [], warnings := warnings st @ [(p, path)], shownCards := cards\<rparr>)"
    if "walk (folderStructure st) path = Inr None"
       "renderFolderView (showPyFiles st) (folderStructure st) = Inr cards"
  proof -
    from resolveLoop_missing[OF that(1)] obtain p where
      "p \<in> set path" "resolveLoop (folderStructure st) path = Inr (NotFound p)" by blast
    with that(2) assms show ?thesis
      by (auto simp: jumpToBreadcrumb_def showNode_def Let_def)
  qed
qed

lemma breadcrumb_jump_example:
  "jumpToBreadcrumb \<lparr>folderStructure = treeAB, currentPath = [''a'', ''b'', ''c''],
                      showPyFiles = False, warnings = [], shownCards = []\<rparr> 1
     = Inr \<lparr>folderStructure = treeAB, currentPath = [''a'', ''b''], showPyFiles = False,
            warnings = [], shownCards = [FileCard (dropped ''x.ipynb'' ''a/b/x.ipynb'')]\<rparr>
   \<and> jumpToBreadcrumb \<lparr>folderStructure = treeAB, currentPath = [''a'', ''b'', ''c''],
                        showPyFiles = False, warnings = [], shownCards = []\<rparr> 2
     = Inr \<lparr>folderStructure = treeAB, currentPath = [], showPyFiles = False,
            warnings = [(''c'', [''a'', ''b'', ''c''])], shownCards = [FolderCard ''a'']\<rparr>"
  by (simp add: tree_defs treeAB_def jumpToBreadcrumb_def showNode_def renderFolderView_def
      orderedKeys_def startsWith_def endsWith_def fileExt_def)


text \<open>
  The fallback to the root has the same defect, and the older copy of the handler
  raises wherever a segment is not found.
\<close>

lemma fallback_to_files_folder_raises: "jumpToBreadcrumb stalePath 0 = Inl TypeError"
  by (simp add: tree_defs stalePath_def jumpToBreadcrumb_def showNode_def
      renderFolderView_def orderedKeys_def startsWith_def)

lemma unguardedLoop_missing:
  "walk node ps = Inr None \<Longrightarrow>
   unguardedLoop (Some node) ps = Inr None \<or> unguardedLoop (Some node) ps = Inl TypeError"
proof (induction node ps rule: walk.induct)
  case (1 node)
  then show ?case by simp
next
  case (2 node p ps)
  show ?case
  proof (cases "readProp node p")
    case (Inl e)
    with 2 show ?thesis by simp
  next
    case (Inr v)
    show ?thesis
    proof (cases v)
      case None
      then show ?thesis using Inr by (cases ps) simp_all
    next
      case (Some child)
      with 2 Inr show ?thesis by simp
    qed
  qed
qed

lemma unguarded_raises:
  "walk (folderStructure st) (take (i + 1) (currentPath st)) = Inr None \<Longrightarrow>
   jumpToBreadcrumbUnguarded st i = Inl TypeError"
  using unguardedLoop_missing[of "folderStructure st" "take (i + 1) (currentPath st)"]
  by (auto simp: jumpToBreadcrumbUnguarded_def Let_def)

section \<open>Properties of the viewer\<close>

lemma indexOf_distinct: "distinct xs \<Longrightarrow> k < length xs \<Longrightarrow> indexOf xs (xs ! k) = int k"
proof (induction xs arbitrary: k)
  case Nil
  then show ?case by simp
next
  case (Cons y ys)
  show ?case
  proof (cases k)
    case 0
    then show ?thesis by simp
  next
    case (Suc j)
    with Cons.prems have "j < length ys" "distinct ys" "ys ! j \<noteq> y" by auto
    with Cons.IH[of j] Suc show ?thesis by (simp add: Let_def)
  qed
qed

lemma load_keeps_cursor:
  "loadNotebookInModal parse m v = Inr v' \<Longrightarrow>
   navigationCardIds v' = navigationCardIds v \<and> currentCardIndex v' = currentCardIndex v"
  by (auto simp: loadNotebookInModal_def Let_def split: if_splits option.splits sum.splits)

text \<open>Loading depends on the entry only, not on the viewer it is loaded into.\<close>

lemma load_succeeds_anywhere:
  "loadNotebookInModal parse m v = Inr v' \<Longrightarrow> \<exists>w'. loadNotebookInModal parse m w = Inr w'"
  by (auto simp: loadNotebookInModal_def Let_def split: if_splits option.splits sum.splits)

text \<open>
  Claim C8: the navigation list is captured when the viewer is opened, and the cursor
  is the position of the opened card in it. A previous step is available exactly when
  the cursor is above 0, a next step exactly when it is below the last position: on the
  first of several cards only the next step, on the last only the previous one, on a
  single card neither. There is no wrap-around: stepping back on the first card and
  stepping on from the last change nothing. (The ids of the cards of a gallery differ
  from one another; the opened card is registered and its content loads.)
\<close>

theorem carousel_boundaries:
  assumes "distinct (getAllCardIds gallery)" and "k < length (getAllCardIds gallery)"
    and "cardMap (getAllCardIds gallery ! k) = Some m"
    and "loadNotebookInModal parse m v = Inr w"
  shows "\<exists>v'. openNotebookModal parse cardMap gallery (getAllCardIds gallery ! k) v = Inr v'
           \<and> navigationCardIds v' = getAllCardIds gallery
           \<and> currentCardIndex v' = int k
           \<and> prevDisabled v' = (k = 0)
           \<and> nextDisabled v' = (k + 1 = length (getAllCardIds gallery))
           \<and> (k = 0 \<longrightarrow> navigatePrevious parse cardMap v' = Inr v')
           \<and> (k + 1 = length (getAllCardIds gallery) \<longrightarrow> navigateNext parse cardMap v' = Inr v')"
proof -
  let ?ids = "getAllCardIds gallery"
  let ?v1 = "v\<lparr>navigationCardIds := ?ids, currentCardIndex := indexOf ?ids (?ids ! k)\<rparr>"
  from load_succeeds_anywhere[OF assms(4)] obtain v2 where
    v2: "loadNotebookInModal parse m ?v1 = Inr v2" by blast
  from load_keeps_cursor[OF v2] indexOf_distinct[OF assms(1,2)]
  have keep: "navigationCardIds v2 = ?ids" "currentCardIndex v2 = int k" by simp_all
  let ?v' = "(updateNavigationButtons v2)\<lparr>modalShown := True\<rparr>"
  have opened: "openNotebookModal parse cardMap gallery (?ids ! k) v = Inr ?v'"
    using assms(3) v2 by (simp add: openNotebookModal_def)
  have fields: "navigationCardIds ?v' = ?ids" "currentCardIndex ?v' = int k"
    "prevDisabled ?v' = (k = 0)" "nextDisabled ?v' = (k + 1 = length ?ids)"
    using keep assms(2) by (auto simp: updateNavigationButtons_def Let_def)
  have "navigatePrevious parse cardMap ?v' = Inr ?v'" if "k = 0"
    using that fields by (simp add: navigatePrevious_def)
  moreover have "navigateNext parse cardMap ?v' = Inr ?v'" if "k + 1 = length ?ids"
    using that fields by (simp add: navigateNext_def)
  ultimately show ?thesis using opened fields by blast
qed

theorem carousel_boundaries_witness:
  "(\<exists>v'. openNotebookModal (\<lambda>t. None) threeEntries threeCards ''k1'' closedViewer = Inr v'
         \<and> currentCardIndex v' = 0 \<and> prevDisabled v' \<and> \<not> nextDisabled v')
   \<and> (\<exists>v'. openNotebookModal (\<lambda>t. None) threeEntries threeCards ''k3'' closedViewer = Inr v'
         \<and> currentCardIndex v' = 2 \<and> \<not> prevDisabled v' \<and> nextDisabled v')
   \<and> (\<exists>v'. openNotebookModal (\<lambda>t. None) threeEntries oneCard ''k1'' closedViewer = Inr v'
         \<and> currentCardIndex v' = 0 \<and> prevDisabled v' \<and> nextDisabled v')"
proof -
  have ids3: "getAllCardIds threeCards = [''k1'', ''k2'', ''k3'']"
    by (simp add: getAllCardIds_def threeCards_def)
  have ids1: "getAllCardIds oneCard = [''k1'']"
    by (simp add: getAllCardIds_def oneCard_def)
  have d3: "distinct (getAllCardIds threeCards)" by (simp add: ids3)
  have d1: "distinct (getAllCardIds oneCard)" by (simp add: ids1)
  have m1: "threeEntries ''k1'' = Some scriptMeta" and m3: "threeEntries ''k3'' = Some scriptMeta"
    by (simp_all add: threeEntries_def)
  have ld: "loadNotebookInModal (\<lambda>t. None) scriptMeta closedViewer
              = Inr (closedViewer\<lparr>viewerTitle := ''a.py'', viewerBody := renderFullScript ''print(1)''\<rparr>)"
    by (simp add: loadNotebookInModal_def scriptMeta_def)
  have first: "\<exists>v'. openNotebookModal (\<lambda>t. None) threeEntries threeCards ''k1'' closedViewer = Inr v'
         \<and> currentCardIndex v' = 0 \<and> prevDisabled v' \<and> \<not> nextDisabled v'"
    using carousel_boundaries[OF d3 _ _ ld, of 0 threeEntries] m1 by (auto simp: ids3)
  have last: "\<exists>v'. openNotebookModal (\<lambda>t. None) threeEntries threeCards ''k3'' closedViewer = Inr v'
         \<and> currentCardIndex v' = 2 \<and> \<not> prevDisabled v' \<and> nextDisabled v'"
    using carousel_boundaries[OF d3 _ _ ld, of 2 threeEntries] m3 by (auto simp: ids3)
  have single: "\<exists>v'. openNotebookModal (\<lambda>t. None) threeEntries oneCard ''k1'' closedViewer = Inr v'
         \<and> currentCardIndex v' = 0 \<and> prevDisabled v' \<and> nextDisabled v'"
    using carousel_boundaries[OF d1 _ _ ld, of 0 threeEntries] m1 by (auto simp: ids1)
  from first last single show ?thesis by blast
qed

end

